theory Spec2Isabelle
  imports
    Complex_Main
    "HOL-Library.AList"
    "HOL-Library.Char_ord"
    "HOL-Library.List_Lexorder"
    "HOL-Library.Log_Nat"
begin

section \<open>Data model of diff.py\<close>

text \<open>
  A Python \<^verbatim>\<open>str\<close> is a \<^typ>\<open>string\<close>, one \<^typ>\<open>char\<close> per character: the model
  covers the text whose characters are among the 256 of \<^typ>\<open>char\<close>, ordered by their
  codes as Python orders them. A \<^verbatim>\<open>dict\<close> is an association list in insertion order; \<^const>\<open>map_of\<close> reads it and \<^const>\<open>AList.update\<close>
  is \<^verbatim>\<open>d[k] = v\<close> (replace in place, or append a new key at the end).

  A file map entry is \<^verbatim>\<open>{'size': ..., 'mod_time': ...}\<close>. The size is a Python \<^verbatim>\<open>int\<close>.
  The modification time is a naive \<^verbatim>\<open>datetime\<close>, modelled by its number of microseconds
  on the naive time line, so that comparison is integer comparison and the difference of
  two of them (a \<^verbatim>\<open>timedelta\<close>) is an integer number of microseconds.
\<close>

record file_entry =
  size :: int
  mod_time :: int

type_synonym file_map = "(string \<times> file_entry) list"

text \<open>The five keys of the inner dictionaries of \<^verbatim>\<open>changes\<close>:
  \<^verbatim>\<open>'nas_only'\<close>, \<^verbatim>\<open>'cs_only'\<close>, \<^verbatim>\<open>'size_changed'\<close>, \<^verbatim>\<open>'nas_newer'\<close>, \<^verbatim>\<open>'cs_newer'\<close>
  (the destination is the NAS, the source is cold storage).\<close>

datatype kind = Nas_only | Cs_only | Size_changed | Nas_newer | Cs_newer

type_synonym bucket = "(kind \<times> string list) list"

type_synonym changes = "(string \<times> bucket) list"

datatype py_error = KeyError | OverflowError | ZeroDivisionError

text \<open>\<^verbatim>\<open>d.keys()\<close>: the keys of a dictionary, each once.\<close>

definition keys :: "('k \<times> 'v) list \<Rightarrow> 'k list" where
  "keys m = remdups (map fst m)"

text \<open>\<^verbatim>\<open>d.get(k, dflt)\<close>: a read that never inserts.\<close>

definition dict_get :: "('k \<times> 'v) list \<Rightarrow> 'k \<Rightarrow> 'v \<Rightarrow> 'v" where
  "dict_get m k dflt = (case map_of m k of None \<Rightarrow> dflt | Some v \<Rightarrow> v)"

section \<open>get\_dir\_key\<close>

text \<open>\<^verbatim>\<open>s.split(sep)\<close> for a separator of one character: the list is never empty.\<close>

fun split_str :: "char \<Rightarrow> string \<Rightarrow> string list" where
  "split_str sep [] = [[]]"
| "split_str sep (c # cs) =
     (if c = sep then [] # split_str sep cs
      else (case split_str sep cs of w # ws \<Rightarrow> (c # w) # ws | [] \<Rightarrow> [[c]]))"

definition get_dir_key :: "string \<Rightarrow> string" where
  "get_dir_key path =
     (if CHR ''/'' \<in> set path then hd (split_str CHR ''/'' path) else ''(root)'')"

section \<open>Scope filtering (in main)\<close>

text \<open>
  \<^verbatim>\<open>tlds_to_process = set(args.tlds)\<close>, defaulted to every directory key of either full
  map when empty, then \<^verbatim>\<open>tlds_to_process -= set(args.exclude)\<close> when an exclude list is
  given.
\<close>

definition tlds_to_process ::
  "string list \<Rightarrow> string list \<Rightarrow> file_map \<Rightarrow> file_map \<Rightarrow> string set" where
  "tlds_to_process tlds exclude source_map_full dest_map_full =
     (let t0 = set tlds;
          t1 = (if t0 = {} then get_dir_key ` set (keys source_map_full @ keys dest_map_full)
                else t0)
      in if exclude \<noteq> [] then t1 - set exclude else t1)"

text \<open>The dictionary comprehension
  \<^verbatim>\<open>{path: data for path, data in m.items() if get_dir_key(path) in tlds_to_process}\<close>.\<close>

definition filter_map :: "string set \<Rightarrow> file_map \<Rightarrow> file_map" where
  "filter_map t m = filter (\<lambda>(path, data). get_dir_key path \<in> t) m"

definition filtered_maps ::
  "string list \<Rightarrow> string list \<Rightarrow> file_map \<Rightarrow> file_map \<Rightarrow> file_map \<times> file_map" where
  "filtered_maps tlds exclude source_map_full dest_map_full =
     (let t = tlds_to_process tlds exclude source_map_full dest_map_full
      in (filter_map t source_map_full, filter_map t dest_map_full))"

section \<open>compare\_listings\<close>

text \<open>
  Python sets are kept as duplicate-free lists. The order in which a \<^verbatim>\<open>for\<close> loop visits
  a set is not fixed by the language; it is the parameter \<open>iter\<close> of the model, and
  \<open>set_order iter\<close> says that \<open>iter\<close> visits every element of the set once.
\<close>

definition set_order :: "(string list \<Rightarrow> string list) \<Rightarrow> bool" where
  "set_order iter = (\<forall>xs. distinct xs \<longrightarrow> set (iter xs) = set xs \<and> distinct (iter xs))"

definition set_difference :: "'a list \<Rightarrow> 'a list \<Rightarrow> 'a list" where
  "set_difference xs ys = filter (\<lambda>x. x \<notin> set ys) xs"

definition set_intersection :: "'a list \<Rightarrow> 'a list \<Rightarrow> 'a list" where
  "set_intersection xs ys = filter (\<lambda>x. x \<in> set ys) xs"

text \<open>
  \<^verbatim>\<open>changes[dir_name][key].append(path)\<close> on the \<^verbatim>\<open>defaultdict\<close> of \<^verbatim>\<open>defaultdict(list)\<close>:
  a missing directory or a missing kind is created on the way.
\<close>

definition append_change :: "string \<Rightarrow> kind \<Rightarrow> string \<Rightarrow> changes \<Rightarrow> changes" where
  "append_change dir_name key path c =
     (let b = dict_get c dir_name []
      in AList.update dir_name (AList.update key (dict_get b key [] @ [path]) b) c)"

text \<open>\<^verbatim>\<open>changes[dir_name].get(key, [])\<close>, read without creating anything.\<close>

definition changes_get :: "changes \<Rightarrow> string \<Rightarrow> kind \<Rightarrow> string list" where
  "changes_get c dir_name key = dict_get (dict_get c dir_name []) key []"

text \<open>The body of the loop over \<^verbatim>\<open>source_paths & dest_paths\<close>; \<^verbatim>\<open>source_map[path]\<close> and
  \<^verbatim>\<open>dest_map[path]\<close> raise \<^verbatim>\<open>KeyError\<close> on a missing key.\<close>

definition compare_step ::
  "file_map \<Rightarrow> file_map \<Rightarrow> string \<Rightarrow> changes \<Rightarrow> py_error + changes" where
  "compare_step source_map dest_map path c =
     (case map_of source_map path of
        None \<Rightarrow> Inl KeyError
      | Some source_file \<Rightarrow>
          (case map_of dest_map path of
             None \<Rightarrow> Inl KeyError
           | Some dest_file \<Rightarrow>
               (let dir_name = get_dir_key path in
                if size source_file \<noteq> size dest_file
                then Inr (append_change dir_name Size_changed path c)
                else if mod_time source_file \<noteq> mod_time dest_file
                then (if mod_time dest_file > mod_time source_file
                      then Inr (append_change dir_name Nas_newer path c)
                      else Inr (append_change dir_name Cs_newer path c))
                else Inr c)))"

fun compare_both ::
  "file_map \<Rightarrow> file_map \<Rightarrow> string list \<Rightarrow> changes \<Rightarrow> py_error + changes" where
  "compare_both source_map dest_map [] c = Inr c"
| "compare_both source_map dest_map (path # paths) c =
     (case compare_step source_map dest_map path c of
        Inl e \<Rightarrow> Inl e
      | Inr c' \<Rightarrow> compare_both source_map dest_map paths c')"

definition compare_listings ::
  "(string list \<Rightarrow> string list) \<Rightarrow> file_map \<Rightarrow> file_map \<Rightarrow> py_error + changes" where
  "compare_listings iter source_map dest_map =
     (let source_paths = keys source_map;
          dest_paths = keys dest_map;
          c1 = fold (\<lambda>path. append_change (get_dir_key path) Nas_only path)
                 (iter (set_difference dest_paths source_paths)) [];
          c2 = fold (\<lambda>path. append_change (get_dir_key path) Cs_only path)
                 (iter (set_difference source_paths dest_paths)) c1
      in compare_both source_map dest_map
           (iter (set_intersection source_paths dest_paths)) c2)"

section \<open>Numbers and text\<close>

text \<open>\<^verbatim>\<open>str(i)\<close> for a Python \<^verbatim>\<open>int\<close>: decimal digits, with a minus sign when negative.\<close>

definition digit_char :: "int \<Rightarrow> char" where
  "digit_char d = ''0123456789'' ! nat d"

function str_digits :: "int \<Rightarrow> string" where
  "str_digits n =
     (if n < 10 then [digit_char n] else str_digits (n div 10) @ [digit_char (n mod 10)])"
  by pat_completeness auto
termination
proof (relation "measure nat")
  show "wf (measure nat)" by simp
next
  fix n :: int
  assume "\<not> n < 10"
  then have "nat (n div 10) < nat n" by simp
  then show "(n div 10, n) \<in> measure nat" by simp
qed

declare str_digits.simps [simp del]

definition str_int :: "int \<Rightarrow> string" where
  "str_int i = (if i < 0 then ''-'' @ str_digits (- i) else str_digits i)"

text \<open>
  A Python \<^verbatim>\<open>float\<close> is an IEEE 754 double. A finite double is modelled by the rational
  number it denotes, and every division by the correctly rounded quotient: \<open>to_double\<close>
  rounds a rational to the nearest number with a 53-bit significand and an exponent of at
  least \<open>-1074\<close> (so subnormal numbers are covered), ties going to the even significand.
  Results of magnitude \<open>2 ^ 1024\<close> and more do not exist as finite doubles; the one
  division of this program that can reach them is \<^verbatim>\<open>int / int\<close>, which then raises
  \<^verbatim>\<open>OverflowError\<close>.
\<close>

definition pow2 :: "int \<Rightarrow> rat" where
  "pow2 e = (if 0 \<le> e then 2 ^ nat e else 1 / 2 ^ nat (- e))"

definition round_half_even :: "rat \<Rightarrow> int" where
  "round_half_even x =
     (let f = \<lfloor>x\<rfloor>; r = x - of_int f
      in if r < 1 / 2 then f else if 1 / 2 < r then f + 1 else if even f then f else f + 1)"

text \<open>The binary exponent \<open>\<lfloor>log\<^sub>2 x\<rfloor>\<close> of a positive rational.\<close>

definition ilog2 :: "rat \<Rightarrow> int" where
  "ilog2 x =
     (let (a, b) = quotient_of x; k = bitlen a - bitlen b
      in if pow2 k \<le> x then k else k - 1)"

definition to_double :: "rat \<Rightarrow> rat" where
  "to_double x =
     (if x = 0 then 0
      else let e = max (ilog2 \<bar>x\<bar> - 52) (- 1074)
           in of_int (round_half_even (x / pow2 e)) * pow2 e)"

text \<open>
  The format specification \<^verbatim>\<open>.1f\<close>: the exact value of the double, rounded to one
  decimal place, ties to even.
\<close>

definition format_1f :: "rat \<Rightarrow> string" where
  "format_1f x =
     (let n = round_half_even (\<bar>x\<bar> * 10)
      in (if x < 0 then ''-'' else []) @ str_digits (n div 10) @ ''.'' @ str_digits (n mod 10))"

text \<open>
  A Python number that is an \<^verbatim>\<open>int\<close> or a \<^verbatim>\<open>float\<close>, and true division \<^verbatim>\<open>x / b\<close> of one
  by an \<^verbatim>\<open>int\<close>: \<^verbatim>\<open>int / int\<close> is the correctly rounded quotient or \<^verbatim>\<open>OverflowError\<close>;
  \<^verbatim>\<open>float / int\<close> converts the divisor to a double and divides.
\<close>

datatype num = I int | F rat

definition num_val :: "num \<Rightarrow> rat" where
  "num_val x = (case x of I a \<Rightarrow> of_int a | F q \<Rightarrow> q)"

definition num_float :: "num \<Rightarrow> rat" where
  "num_float x = (case x of I a \<Rightarrow> to_double (of_int a) | F q \<Rightarrow> q)"

definition truediv :: "num \<Rightarrow> int \<Rightarrow> py_error + rat" where
  "truediv x b =
     (if b = 0 then Inl ZeroDivisionError
      else case x of
        I a \<Rightarrow> (let q = to_double (of_int a / of_int b)
                in if pow2 1024 \<le> \<bar>q\<bar> then Inl OverflowError else Inr q)
      | F q \<Rightarrow> Inr (to_double (q / to_double (of_int b))))"

section \<open>human\_readable\_bytes\<close>

definition power_labels :: "nat \<Rightarrow> string" where
  "power_labels n = [[], ''K'', ''M'', ''G'', ''T''] ! n"

text \<open>The \<^verbatim>\<open>while\<close> loop: \<^verbatim>\<open>size_bytes\<close> is an \<^verbatim>\<open>int\<close> on entry and a \<^verbatim>\<open>float\<close> after the
  first division; \<^verbatim>\<open>len(power_labels) - 1\<close> is \<open>5 - 1\<close>.\<close>

function bytes_loop :: "num \<Rightarrow> nat \<Rightarrow> py_error + (num \<times> nat)" where
  "bytes_loop size_bytes n =
     (if num_val size_bytes \<ge> 1024 \<and> n < 5 - 1
      then (case truediv size_bytes 1024 of
              Inl e \<Rightarrow> Inl e
            | Inr q \<Rightarrow> bytes_loop (F q) (n + 1))
      else Inr (size_bytes, n))"
  by pat_completeness auto
termination
  by (relation "measure (\<lambda>(s, n). 4 - n)") auto

declare bytes_loop.simps [simp del]

text \<open>The argument is \<^verbatim>\<open>None\<close> or an \<^verbatim>\<open>int\<close>. Formatting an \<^verbatim>\<open>int\<close> with \<^verbatim>\<open>.1f\<close> converts it
  to a double first.\<close>

definition human_readable_bytes :: "int option \<Rightarrow> py_error + string" where
  "human_readable_bytes size_bytes =
     (case size_bytes of
        None \<Rightarrow> Inr ''N/A''
      | Some b \<Rightarrow>
          if b < 0 then Inr ''N/A''
          else if b = 0 then Inr ''0B''
          else (case bytes_loop (I b) 0 of
                  Inl e \<Rightarrow> Inl e
                | Inr (x, n) \<Rightarrow>
                    Inr (format_1f (num_float x) @ power_labels n @ ''B'')))"

section \<open>human\_readable\_time\<close>

text \<open>
  The argument is a \<^verbatim>\<open>timedelta\<close>, given by its number of microseconds.
  \<^verbatim>\<open>total_seconds()\<close> divides that number by \<open>10\<^sup>6\<close>; a \<^verbatim>\<open>timedelta\<close> is bounded by
  \<open>10\<^sup>9\<close> days, so this division does not overflow. \<^verbatim>\<open>int(x)\<close> of a non-negative double
  is its floor.
\<close>

definition plural :: "bool \<Rightarrow> string" where
  "plural b = (if b then ''s'' else [])"

definition human_readable_time :: "int \<Rightarrow> string" where
  "human_readable_time time_diff =
     (let seconds = \<bar>to_double (of_int time_diff / 1000000)\<bar> in
      if seconds < 60
      then str_int \<lfloor>seconds\<rfloor> @ '' second'' @ plural (seconds \<noteq> 1)
      else if seconds < 3600
      then str_int \<lfloor>to_double (seconds / 60)\<rfloor> @ '' minute'' @
           plural (\<lfloor>to_double (seconds / 60)\<rfloor> \<noteq> 1)
      else if seconds < 86400
      then format_1f (to_double (seconds / 3600)) @ '' hour'' @
           plural (to_double (seconds / 3600) \<noteq> 1)
      else if seconds < 604800
      then format_1f (to_double (seconds / 86400)) @ '' day'' @
           plural (to_double (seconds / 86400) \<noteq> 1)
      else
        (let days = \<lfloor>to_double (seconds / 86400)\<rfloor> in
         if days < 30
         then (let weeks = days div 7; rem_days = days mod 7
               in str_int weeks @ '' week'' @ plural (weeks \<noteq> 1) @ '', '' @
                  str_int rem_days @ '' day'' @ plural (rem_days \<noteq> 1))
         else if days < 365
         then (let months = days div 30; rem_days = days mod 30; weeks = rem_days div 7
               in str_int months @ '' month'' @ plural (months \<noteq> 1) @ '', '' @
                  str_int weeks @ '' week'' @ plural (weeks \<noteq> 1))
         else (let years = days div 365; rem_days = days mod 365; months = rem_days div 30
               in str_int years @ '' year'' @ plural (years \<noteq> 1) @ '', '' @
                  str_int months @ '' month'' @ plural (months \<noteq> 1))))"

section \<open>print\_report\<close>

text \<open>Characters that a literal cannot hold: newline, double quote, escape.\<close>

definition nl :: string where
  "nl = [CHR 0x0A]"

definition dq :: string where
  "dq = [CHR 0x22]"

definition esc :: string where
  "esc = [CHR 0x1B]"

text \<open>The class \<^verbatim>\<open>Colors\<close> and the configuration constants.\<close>

definition GREEN :: string where "GREEN = esc @ ''[92m''"
definition YELLOW :: string where "YELLOW = esc @ ''[93m''"
definition RED :: string where "RED = esc @ ''[91m''"
definition CYAN :: string where "CYAN = esc @ ''[96m''"
definition BOLD :: string where "BOLD = esc @ ''[1m''"
definition RESET :: string where "RESET = esc @ ''[0m''"

definition COLDSTORAGE_USER :: string where "COLDSTORAGE_USER = ''byron''"
definition COLDSTORAGE_HOST :: string where "COLDSTORAGE_HOST = ''coldstorage''"
definition NAS_BASE_PATH :: string where "NAS_BASE_PATH = ''/mnt/user''"

text \<open>The format specification \<^verbatim>\<open><w\<close>: pad with spaces on the right up to width \<open>w\<close>.\<close>

definition ljust :: "nat \<Rightarrow> string \<Rightarrow> string" where
  "ljust w s = s @ replicate (w - length s) CHR '' ''"

definition len :: "'a list \<Rightarrow> int" where
  "len xs = int (length xs)"

text \<open>\<^verbatim>\<open>os.path.join(a, b)\<close> and \<^verbatim>\<open>os.path.dirname(p)\<close> of the standard library (POSIX).\<close>

definition path_join :: "string \<Rightarrow> string \<Rightarrow> string" where
  "path_join a b =
     (if b \<noteq> [] \<and> hd b = CHR ''/'' then b
      else if a = [] \<or> last a = CHR ''/'' then a @ b
      else a @ ''/'' @ b)"

definition dirname :: "string \<Rightarrow> string" where
  "dirname p =
     (let head = rev (dropWhile (\<lambda>c. c \<noteq> CHR ''/'') (rev p))
      in if head \<noteq> [] \<and> head \<noteq> replicate (length head) CHR ''/''
         then rev (dropWhile (\<lambda>c. c = CHR ''/'') (rev head))
         else head)"

text \<open>Sequencing of steps that may raise: the first error ends the run. \<open>lines_for f xs\<close>
  is a \<^verbatim>\<open>for\<close> loop over \<open>xs\<close> whose body prints the lines \<open>f x\<close>.\<close>

definition bind :: "py_error + 'a \<Rightarrow> ('a \<Rightarrow> py_error + 'b) \<Rightarrow> py_error + 'b" where
  "bind m f = (case m of Inl e \<Rightarrow> Inl e | Inr x \<Rightarrow> f x)"

fun lines_for :: "('a \<Rightarrow> py_error + string list) \<Rightarrow> 'a list \<Rightarrow> py_error + string list" where
  "lines_for f [] = Inr []"
| "lines_for f (x # xs) = bind (f x) (\<lambda>l. bind (lines_for f xs) (\<lambda>ls. Inr (l @ ls)))"

text \<open>\<^verbatim>\<open>sorted(list(all_source_dirs | all_dest_dirs))\<close>.\<close>

definition all_dirs_sorted :: "file_map \<Rightarrow> file_map \<Rightarrow> string list" where
  "all_dirs_sorted source_map dest_map =
     sort (remdups (map get_dir_key (keys source_map) @ map get_dir_key (keys dest_map)))"

text \<open>\<^verbatim>\<open>sum(m.get(path, {}).get('size', 0) for dir_name in changes
  for path in changes[dir_name].get(key, []))\<close>.\<close>

definition total_size :: "file_map \<Rightarrow> kind \<Rightarrow> changes \<Rightarrow> int" where
  "total_size m key c =
     sum_list (concat (map (\<lambda>(dir_name, b).
        map (\<lambda>path. case map_of m path of None \<Rightarrow> 0 | Some e \<Rightarrow> size e) (dict_get b key [])) c))"

text \<open>
  Reading \<^verbatim>\<open>changes[dir_name]\<close> from the \<^verbatim>\<open>defaultdict\<close>: a missing key is inserted with an
  empty inner dictionary. The summary loop does this for every directory it prints.
\<close>

definition touch :: "string \<Rightarrow> changes \<Rightarrow> changes" where
  "touch dir_name c = (if map_of c dir_name = None then c @ [(dir_name, [])] else c)"

definition summary_row :: "string \<Rightarrow> changes \<Rightarrow> string" where
  "summary_row dir_name c =
     (let nas_c = len (changes_get c dir_name Nas_only);
          cs_c = len (changes_get c dir_name Cs_only);
          sc_c = len (changes_get c dir_name Size_changed);
          nn_c = len (changes_get c dir_name Nas_newer);
          csn_c = len (changes_get c dir_name Cs_newer)
      in ljust 25 dir_name @ '' | '' @ ljust 12 (str_int nas_c) @ '' | '' @
         ljust 12 (str_int cs_c) @ '' | '' @ ljust 12 (str_int sc_c) @ '' | '' @
         ljust 12 (str_int nn_c) @ '' | '' @ ljust 12 (str_int csn_c))"

fun summary_rows :: "string list \<Rightarrow> changes \<Rightarrow> string list \<times> changes" where
  "summary_rows [] c = ([], c)"
| "summary_rows (dir_name # dirs) c =
     (let c1 = touch dir_name c;
          row = summary_row dir_name c1;
          (rows, c2) = summary_rows dirs c1
      in (row # rows, c2))"

text \<open>The two lines printed for a path to copy.\<close>

definition copy_commands :: "string \<Rightarrow> string \<Rightarrow> string list" where
  "copy_commands source_path_for_fix path =
     (let source_full_path = path_join source_path_for_fix path;
          dest_path = path_join NAS_BASE_PATH path;
          dest_dir = dirname dest_path
      in [''mkdir -p '' @ dq @ dest_dir @ dq,
          ''scp '' @ dq @ COLDSTORAGE_USER @ ''@'' @ COLDSTORAGE_HOST @ '':'' @ source_full_path @
            dq @ '' '' @ dq @ dest_path @ dq])"

text \<open>The line printed for a path to retime; \<open>strftime\<close> stands for the standard library's
  \<^verbatim>\<open>datetime.strftime('%Y%m%d%H%M.%S')\<close>.\<close>

definition touch_command :: "(int \<Rightarrow> string) \<Rightarrow> file_map \<Rightarrow> string \<Rightarrow> py_error + string list" where
  "touch_command strftime source_map path =
     (case map_of source_map path of
        None \<Rightarrow> Inl KeyError
      | Some e \<Rightarrow>
          (let cs_time = mod_time e;
               touch_format = strftime cs_time;
               dest_path = path_join NAS_BASE_PATH path
           in Inr [''touch -t '' @ touch_format @ '' '' @ dq @ dest_path @ dq]))"

text \<open>The body of the loop \<^verbatim>\<open>for dir_name in sorted(changes.keys())\<close> under \<^verbatim>\<open>show_fix\<close>.\<close>

definition fix_commands ::
  "(int \<Rightarrow> string) \<Rightarrow> changes \<Rightarrow> file_map \<Rightarrow> string \<Rightarrow> string \<Rightarrow> py_error + string list" where
  "fix_commands strftime c source_map source_path_for_fix dir_name =
     (let new_files = changes_get c dir_name Cs_only;
          l1 = (if new_files \<noteq> []
                then (nl @ ''# Copy NEW files for directory: '' @ dir_name) #
                     concat (map (copy_commands source_path_for_fix) new_files)
                else []);
          changed_files = changes_get c dir_name Size_changed;
          l2 = (if changed_files \<noteq> []
                then (nl @ ''# Copy changed files for directory: '' @ dir_name) #
                     concat (map (copy_commands source_path_for_fix) changed_files)
                else []);
          cs_touch = changes_get c dir_name Cs_newer;
          nas_touch = changes_get c dir_name Nas_newer
      in bind (if cs_touch \<noteq> []
               then bind (lines_for (touch_command strftime source_map) cs_touch)
                      (\<lambda>ls. Inr ((nl @ ''# Update timestamps newer on coldstorage for directory: '' @
                                  dir_name) # ls))
               else Inr [])
           (\<lambda>l3.
         bind (if nas_touch \<noteq> []
               then bind (lines_for (touch_command strftime source_map) nas_touch)
                      (\<lambda>ls. Inr ((nl @ ''# Update timestamps newer on nas for directory: '' @
                                  dir_name) # ls))
               else Inr [])
           (\<lambda>l4. Inr (l1 @ l2 @ l3 @ l4))))"

definition detail_map :: "string \<Rightarrow> string \<Rightarrow> (kind \<times> string \<times> string \<times> string) list" where
  "detail_map source_display_name dest_display_name =
     [(Nas_only, ''Only on '' @ dest_display_name, RED, ''-''),
      (Cs_only, ''Only on '' @ source_display_name, GREEN, ''+''),
      (Size_changed, ''Size has changed'', YELLOW, ''*''),
      (Nas_newer, ''Date is newer on '' @ dest_display_name, CYAN, ''~''),
      (Cs_newer, ''Date is newer on '' @ source_display_name, CYAN, ''~'')]"

text \<open>The line printed for one item of the detail listing.\<close>

definition item_line ::
  "file_map \<Rightarrow> file_map \<Rightarrow> string \<Rightarrow> string \<Rightarrow> kind \<Rightarrow> string \<Rightarrow> string \<Rightarrow> py_error + string list" where
  "item_line source_map dest_map source_display_name dest_display_name key symbol item =
     bind
       (if key = Size_changed
        then bind (human_readable_bytes (map_option size (map_of dest_map item))) (\<lambda>nas_size.
             bind (human_readable_bytes (map_option size (map_of source_map item))) (\<lambda>cs_size.
             Inr (''('' @ BOLD @ nas_size @ '' on '' @ dest_display_name @ '', '' @ cs_size @
                  '' on '' @ source_display_name @ RESET @ '')'')))
        else if key \<in> set [Nas_newer, Cs_newer]
        then (case map_of dest_map item of
                None \<Rightarrow> Inl KeyError
              | Some dest_file \<Rightarrow>
                  (case map_of source_map item of
                     None \<Rightarrow> Inl KeyError
                   | Some source_file \<Rightarrow>
                       (let time_diff = \<bar>mod_time dest_file - mod_time source_file\<bar>;
                            hr_diff = human_readable_time time_diff;
                            newer_on = (if key = Nas_newer then dest_display_name
                                        else source_display_name)
                        in Inr (''('' @ BOLD @ hr_diff @ '' newer on '' @ newer_on @ RESET @
                                '')''))))
        else Inr [])
       (\<lambda>details. Inr [''    '' @ symbol @ '' '' @ item @ '' '' @ details])"

text \<open>The body of the loop over \<^verbatim>\<open>detail_map\<close>.\<close>

definition kind_lines ::
  "changes \<Rightarrow> file_map \<Rightarrow> file_map \<Rightarrow> bool \<Rightarrow> string \<Rightarrow> string \<Rightarrow> string \<Rightarrow>
   (kind \<times> string \<times> string \<times> string) \<Rightarrow> py_error + string list" where
  "kind_lines c source_map dest_map show_all source_display_name dest_display_name dir_name entry =
     (case entry of (key, title, color, symbol) \<Rightarrow>
        (let items = changes_get c dir_name key in
         if items \<noteq> []
         then bind (lines_for
                      (item_line source_map dest_map source_display_name dest_display_name key symbol)
                      (if show_all then items else take 3 items))
                (\<lambda>ls. Inr ([color @ ''  '' @ title @ '' ('' @ str_int (len items) @ ''):'' @ RESET] @
                           ls @
                           (if \<not> show_all \<and> len items > 3
                            then [''    ... +'' @ str_int (len items - 3) @ '' more'']
                            else [])))
         else Inr []))"

text \<open>
  The body of the loop \<^verbatim>\<open>for dir_name in sorted(all_dirs_sorted)\<close>. The test of \<^verbatim>\<open>show_fix\<close>
  stands inside this loop, and the loop over \<^verbatim>\<open>sorted(changes.keys())\<close> inside that test.
\<close>

definition detail_dir ::
  "(int \<Rightarrow> string) \<Rightarrow> changes \<Rightarrow> file_map \<Rightarrow> file_map \<Rightarrow> bool \<Rightarrow> bool \<Rightarrow> string \<Rightarrow> string \<Rightarrow>
   string \<Rightarrow> string \<Rightarrow> py_error + string list" where
  "detail_dir strftime c source_map dest_map show_all show_fix source_path_for_fix
     source_display_name dest_display_name dir_name =
     (if dict_get c dir_name [] = [] then Inr []
      else bind
             (if show_fix
              then bind (lines_for (fix_commands strftime c source_map source_path_for_fix)
                           (sort (keys c)))
                     (\<lambda>ls. Inr ((nl @ ''--- Fix Commands (to run on '' @ dest_display_name @
                                 '' server) ---'') # ls))
              else lines_for
                     (kind_lines c source_map dest_map show_all source_display_name
                        dest_display_name dir_name)
                     (detail_map source_display_name dest_display_name))
             (\<lambda>ls. Inr ((nl @ ''Directory: '' @ dir_name @ nl @ ''------------------------'') # ls)))"

text \<open>The \<^verbatim>\<open>header\<close> of the summary table and its last row.\<close>

definition summary_header :: "string \<Rightarrow> string \<Rightarrow> string" where
  "summary_header source_display_name dest_display_name =
     ljust 25 ''Directory'' @ '' | '' @ ljust 12 (dest_display_name @ '' only'') @ '' | '' @
     ljust 12 (source_display_name @ '' only'') @ '' | '' @ ljust 12 ''Size Change'' @ '' | '' @
     ljust 12 (dest_display_name @ '' Newer'') @ '' | '' @
     ljust 12 (source_display_name @ '' Newer'')"

definition total_row :: "string \<Rightarrow> string \<Rightarrow> string" where
  "total_row total_nas_hr total_cs_hr =
     ljust 25 ''TOTAL SIZE'' @ '' | '' @ ljust 12 total_nas_hr @ '' | '' @
     ljust 12 total_cs_hr @ '' | '' @ ljust 12 [] @ '' | '' @ ljust 12 [] @ '' | '' @ ljust 12 []"

text \<open>The lines printed, in order, one string for each call of \<^verbatim>\<open>print\<close>; \<open>c1\<close> is
  \<^verbatim>\<open>changes\<close> as the summary loop leaves it.\<close>

definition print_report ::
  "(int \<Rightarrow> string) \<Rightarrow> changes \<Rightarrow> file_map \<Rightarrow> file_map \<Rightarrow> bool \<Rightarrow> bool \<Rightarrow> string \<Rightarrow> string \<Rightarrow>
   string \<Rightarrow> py_error + string list" where
  "print_report strftime c source_map dest_map show_all show_fix source_path_for_fix
     source_display_name dest_display_name =
     (let dirs = all_dirs_sorted source_map dest_map;
          total_nas_size = total_size dest_map Nas_only c;
          total_cs_size = total_size source_map Cs_only c;
          header = summary_header source_display_name dest_display_name;
          rule = replicate (length header) CHR ''-'';
          (rows, c1) = summary_rows dirs c
      in bind (human_readable_bytes (Some total_nas_size)) (\<lambda>total_nas_hr.
         bind (human_readable_bytes (Some total_cs_size)) (\<lambda>total_cs_hr.
         (let summary =
                [nl @ ''--- Summary of Differences ---'', header, rule] @ rows @
                [rule, total_row total_nas_hr total_cs_hr]
          in if c1 = [] then Inr (summary @ [nl @ ''No differences found.''])
             else bind (lines_for
                          (detail_dir strftime c1 source_map dest_map show_all show_fix
                             source_path_for_fix source_display_name dest_display_name)
                          (sort dirs))
                    (\<lambda>details. Inr (summary @ [nl @ ''--- Details of Differences ---''] @
                                  details))))))"

section \<open>The end of main\<close>

definition SOURCE_NAME :: string where "SOURCE_NAME = ''coldstorage''"
definition DEST_NAME :: string where "DEST_NAME = ''nas''"

text \<open>\<^verbatim>\<open>differences = compare_listings(source_map, dest_map)\<close> followed by the call of
  \<^verbatim>\<open>print_report\<close>.\<close>

definition compare_and_report ::
  "(string list \<Rightarrow> string list) \<Rightarrow> (int \<Rightarrow> string) \<Rightarrow> file_map \<Rightarrow> file_map \<Rightarrow> bool \<Rightarrow> bool \<Rightarrow>
   string \<Rightarrow> string \<Rightarrow> py_error + string list" where
  "compare_and_report iter strftime source_map dest_map show_all show_fix source_path
     source_display_name =
     bind (compare_listings iter source_map dest_map) (\<lambda>differences.
       print_report strftime differences source_map dest_map show_all show_fix source_path
         source_display_name DEST_NAME)"

section \<open>Specification-side definitions\<close>

text \<open>
  The classification of a path as the specification words it (4.3 Comparator): only in the
  destination, only in the source, or in both with a size mismatch first and a timestamp
  mismatch second. It is compared with the loops of \<open>compare_listings\<close> below.
\<close>

definition spec_classify :: "file_map \<Rightarrow> file_map \<Rightarrow> string \<Rightarrow> kind option" where
  "spec_classify source_map dest_map path =
     (case map_of source_map path of
        None \<Rightarrow> (case map_of dest_map path of None \<Rightarrow> None | Some dest_file \<Rightarrow> Some Nas_only)
      | Some source_file \<Rightarrow>
          (case map_of dest_map path of
             None \<Rightarrow> Some Cs_only
           | Some dest_file \<Rightarrow>
               if size source_file \<noteq> size dest_file then Some Size_changed
               else if mod_time source_file < mod_time dest_file then Some Nas_newer
               else if mod_time dest_file < mod_time source_file then Some Cs_newer
               else None))"

text \<open>The paths of a list that belong to one directory key and one kind.\<close>

definition selected :: "file_map \<Rightarrow> file_map \<Rightarrow> string \<Rightarrow> kind \<Rightarrow> string list \<Rightarrow> string list" where
  "selected s d dk k ps = filter (\<lambda>p. get_dir_key p = dk \<and> spec_classify s d p = Some k) ps"

text \<open>The paths visited by the three loops of \<open>compare_listings\<close>, in order.\<close>

definition visited :: "(string list \<Rightarrow> string list) \<Rightarrow> file_map \<Rightarrow> file_map \<Rightarrow> string list" where
  "visited iter s d =
     iter (set_difference (keys d) (keys s)) @ iter (set_difference (keys s) (keys d)) @
     iter (set_intersection (keys s) (keys d))"

section \<open>Example inputs\<close>

text \<open>Two small listings: one path differs in size and time, one is only in the source
  (at the top level), one is only in the destination.\<close>

definition example_source :: file_map where
  "example_source =
     [(''foo/a.txt'', \<lparr>size = 100, mod_time = 7\<rparr>), (''x.txt'', \<lparr>size = 1, mod_time = 7\<rparr>)]"

definition example_dest :: file_map where
  "example_dest =
     [(''foo/a.txt'', \<lparr>size = 200, mod_time = 9\<rparr>), (''bar/z.txt'', \<lparr>size = 5, mod_time = 7\<rparr>)]"

text \<open>Two unfiltered listings with entries under \<open>A\<close>, \<open>B\<close>, \<open>C\<close> and at the top level.\<close>

definition full_source :: file_map where
  "full_source =
     [(''A/one.txt'', \<lparr>size = 1, mod_time = 7\<rparr>),
      (''B/two.txt'', \<lparr>size = 2, mod_time = 7\<rparr>),
      (''C/three.txt'', \<lparr>size = 3, mod_time = 7\<rparr>),
      (''top.txt'', \<lparr>size = 4, mod_time = 7\<rparr>)]"

definition full_dest :: file_map where
  "full_dest =
     [(''B/two.txt'', \<lparr>size = 2, mod_time = 7\<rparr>),
      (''A/sub/four.txt'', \<lparr>size = 5, mod_time = 8\<rparr>)]"

text \<open>A listing with one file, used for both sides, and a source with files in two
  directories.\<close>

definition one_file :: file_map where
  "one_file = [(''foo/a.txt'', \<lparr>size = 100, mod_time = 7\<rparr>)]"

definition two_dirs :: file_map where
  "two_dirs = [(''a/x'', \<lparr>size = 1, mod_time = 7\<rparr>), (''b/y'', \<lparr>size = 2, mod_time = 7\<rparr>)]"

section \<open>Properties of get\_dir\_key\<close>

lemma split_str_not_Nil: "split_str sep s \<noteq> []"
  by (induction s) (auto split: list.splits)

lemma hd_split_str: "hd (split_str sep s) = takeWhile (\<lambda>c. c \<noteq> sep) s"
proof (induction s)
  case Nil
  show ?case by simp
next
  case (Cons c cs)
  show ?case
  proof (cases "c = sep")
    case True
    then show ?thesis by simp
  next
    case False
    obtain w ws where ws: "split_str sep cs = w # ws"
      using split_str_not_Nil [of sep cs] by (cases "split_str sep cs") auto
    with Cons False show ?thesis by simp
  qed
qed

lemma get_dir_key_sep:
  assumes "CHR ''/'' \<notin> set pre"
  shows "get_dir_key (pre @ CHR ''/'' # post) = pre"
proof -
  have "takeWhile (\<lambda>c. c \<noteq> CHR ''/'') (pre @ CHR ''/'' # post) = pre"
    using assms by (induction pre) auto
  then show ?thesis
    by (simp add: get_dir_key_def hd_split_str)
qed

text \<open>
  C7. The directory key of a path with no \<open>/\<close> is the literal \<open>(root)\<close>; the key of any
  other path is the part of the path before its first \<open>/\<close>.
\<close>

theorem get_dir_key_spec:
  "(CHR ''/'' \<notin> set path \<longrightarrow> get_dir_key path = ''(root)'') \<and>
   (\<forall>pre post. path = pre @ CHR ''/'' # post \<and> CHR ''/'' \<notin> set pre \<longrightarrow>
      get_dir_key path = pre)"
  using get_dir_key_sep by (auto simp: get_dir_key_def)

theorem get_dir_key_spec_witness:
  "CHR ''/'' \<notin> set ''a.txt'' \<and> get_dir_key ''a.txt'' = ''(root)'' \<and>
   ''foo/bar/a.txt'' = ''foo'' @ CHR ''/'' # ''bar/a.txt'' \<and> CHR ''/'' \<notin> set ''foo'' \<and>
   get_dir_key ''foo/bar/a.txt'' = ''foo''"
proof -
  have a: "CHR ''/'' \<notin> set ''a.txt''" by simp
  have b: "''foo/bar/a.txt'' = ''foo'' @ CHR ''/'' # ''bar/a.txt'' \<and> CHR ''/'' \<notin> set ''foo''"
    by simp
  from get_dir_key_spec [of "''a.txt''"] a
  have 1: "get_dir_key ''a.txt'' = ''(root)''" by blast
  from get_dir_key_spec [of "''foo/bar/a.txt''"] b
  have 2: "get_dir_key ''foo/bar/a.txt'' = ''foo''" by blast
  from a b 1 2 show ?thesis by blast
qed

section \<open>Properties of scope filtering\<close>

lemma map_of_filter_map:
  "map_of (filter_map t m) p = (if get_dir_key p \<in> t then map_of m p else None)"
  by (induction m) (auto simp: filter_map_def)

lemma set_keys: "set (keys m) = dom (map_of m)"
  by (auto simp: keys_def dom_map_of_conv_image_fst)

text \<open>
  C9. With include list \<open>{A, B}\<close> and exclude list \<open>{B}\<close> (two different names), both
  filtered maps keep exactly the entries whose directory key is \<open>A\<close>, whatever else the
  full maps hold. In general the final key set is the include list, or every directory key
  of either full map when the include list is empty, minus the exclude list; both maps are
  restricted to that one set.
\<close>

theorem scope_filter_spec:
  "(set tlds = {A, B} \<and> set exclude = {B} \<and> A \<noteq> B \<longrightarrow>
      filtered_maps tlds exclude source_map_full dest_map_full =
        (filter (\<lambda>(path, data). get_dir_key path = A) source_map_full,
         filter (\<lambda>(path, data). get_dir_key path = A) dest_map_full)) \<and>
   (\<exists>t. t = (if tlds = []
              then get_dir_key ` (dom (map_of source_map_full) \<union> dom (map_of dest_map_full))
              else set tlds) - set exclude \<and>
        tlds_to_process tlds exclude source_map_full dest_map_full = t \<and>
        (\<forall>path. map_of (fst (filtered_maps tlds exclude source_map_full dest_map_full)) path =
                  (if get_dir_key path \<in> t then map_of source_map_full path else None) \<and>
                map_of (snd (filtered_maps tlds exclude source_map_full dest_map_full)) path =
                  (if get_dir_key path \<in> t then map_of dest_map_full path else None)))"
proof -
  have t: "tlds_to_process tlds exclude source_map_full dest_map_full =
        (if tlds = []
         then get_dir_key ` (dom (map_of source_map_full) \<union> dom (map_of dest_map_full))
         else set tlds) - set exclude"
    by (auto simp: tlds_to_process_def Let_def set_keys)
  have "filtered_maps tlds exclude source_map_full dest_map_full =
        (filter (\<lambda>(path, data). get_dir_key path = A) source_map_full,
         filter (\<lambda>(path, data). get_dir_key path = A) dest_map_full)"
    if "set tlds = {A, B} \<and> set exclude = {B} \<and> A \<noteq> B"
  proof -
    from that have "tlds \<noteq> []" by auto
    with that t have "tlds_to_process tlds exclude source_map_full dest_map_full = {A}"
      by auto
    then show ?thesis by (simp add: filtered_maps_def filter_map_def)
  qed
  then show ?thesis
    using t by (simp add: filtered_maps_def map_of_filter_map Let_def)
qed

theorem scope_filter_spec_witness:
  "set [''A'', ''B''] = {''A'', ''B''} \<and> set [''B''] = {''B''} \<and> ''A'' \<noteq> ''B'' \<and>
   filtered_maps [''A'', ''B''] [''B''] full_source full_dest =
     ([(''A/one.txt'', \<lparr>size = 1, mod_time = 7\<rparr>)],
      [(''A/sub/four.txt'', \<lparr>size = 5, mod_time = 8\<rparr>)])"
proof -
  have h: "set [''A'', ''B''] = {''A'', ''B''} \<and> set [''B''] = {''B''} \<and> ''A'' \<noteq> ''B''"
    by simp
  from scope_filter_spec [of "[''A'', ''B'']" "''A''" "''B''" "[''B'']" full_source full_dest] h
  have "filtered_maps [''A'', ''B''] [''B''] full_source full_dest =
        (filter (\<lambda>(path, data). get_dir_key path = ''A'') full_source,
         filter (\<lambda>(path, data). get_dir_key path = ''A'') full_dest)"
    by blast
  then show ?thesis
    using h by (simp add: full_source_def full_dest_def get_dir_key_def)
qed

section \<open>Properties of compare\_listings\<close>

lemma changes_get_append_change:
  "changes_get (append_change d k p c) d' k' =
     (if d' = d \<and> k' = k then changes_get c d k @ [p] else changes_get c d' k')"
  by (simp add: changes_get_def append_change_def dict_get_def update_conv' Let_def)

lemma fold_nas_only:
  assumes "\<forall>p \<in> set ps. spec_classify s d p = Some Nas_only"
  shows "changes_get (fold (\<lambda>path. append_change (get_dir_key path) Nas_only path) ps c) dk k
         = changes_get c dk k @ selected s d dk k ps"
  using assms
  by (induction ps arbitrary: c) (auto simp: changes_get_append_change selected_def)

lemma fold_cs_only:
  assumes "\<forall>p \<in> set ps. spec_classify s d p = Some Cs_only"
  shows "changes_get (fold (\<lambda>path. append_change (get_dir_key path) Cs_only path) ps c) dk k
         = changes_get c dk k @ selected s d dk k ps"
  using assms
  by (induction ps arbitrary: c) (auto simp: changes_get_append_change selected_def)

lemma compare_step_selected:
  assumes sf: "map_of s p = Some sf" and df: "map_of d p = Some df"
  shows "\<exists>c1. compare_step s d p c = Inr c1 \<and>
           (\<forall>dk k. changes_get c1 dk k = changes_get c dk k @ selected s d dk k [p])"
proof (cases "size sf \<noteq> size df")
  case True
  then show ?thesis using sf df
    by (simp add: compare_step_def selected_def spec_classify_def changes_get_append_change)
next
  case eq: False
  show ?thesis
  proof (cases "mod_time sf = mod_time df")
    case True
    then show ?thesis using sf df eq
      by (simp add: compare_step_def selected_def spec_classify_def)
  next
    case False
    then show ?thesis using sf df eq
      by (cases "mod_time sf < mod_time df")
         (simp_all add: compare_step_def selected_def spec_classify_def changes_get_append_change)
  qed
qed

lemma compare_both_selected:
  assumes "\<forall>p \<in> set ps. map_of s p \<noteq> None \<and> map_of d p \<noteq> None"
  shows "\<exists>c'. compare_both s d ps c = Inr c' \<and>
           (\<forall>dk k. changes_get c' dk k = changes_get c dk k @ selected s d dk k ps)"
  using assms
proof (induction ps arbitrary: c)
  case Nil
  then show ?case by (simp add: selected_def)
next
  case (Cons p ps)
  from Cons.prems obtain sf df where sf: "map_of s p = Some sf" and df: "map_of d p = Some df"
    by auto
  from compare_step_selected [OF sf df, of c] obtain c1 where c1: "compare_step s d p c = Inr c1"
    and g1: "\<forall>dk k. changes_get c1 dk k = changes_get c dk k @ selected s d dk k [p]"
    by blast
  from Cons.prems have "\<forall>p \<in> set ps. map_of s p \<noteq> None \<and> map_of d p \<noteq> None" by simp
  from Cons.IH [OF this, of c1] obtain c' where
    c': "compare_both s d ps c1 = Inr c'" and
    g': "\<forall>dk k. changes_get c' dk k = changes_get c1 dk k @ selected s d dk k ps"
    by blast
  have "compare_both s d (p # ps) c = Inr c'" using c1 c' by simp
  moreover have "\<forall>dk k. changes_get c' dk k = changes_get c dk k @ selected s d dk k (p # ps)"
    using g1 g' by (simp add: selected_def)
  ultimately show ?case by blast
qed

lemma changes_get_Nil: "changes_get [] dk k = []"
  by (simp add: changes_get_def dict_get_def)

lemma in_keys_iff: "p \<in> set (keys m) \<longleftrightarrow> map_of m p \<noteq> None"
  by (simp add: keys_def map_of_eq_None_iff)

lemma distinct_keys: "distinct (keys m)"
  by (simp add: keys_def)

lemma compare_listings_selected:
  assumes "set_order iter"
  shows "\<exists>c. compare_listings iter s d = Inr c \<and>
           (\<forall>dk k. changes_get c dk k = selected s d dk k (visited iter s d))"
proof -
  let ?A = "iter (set_difference (keys d) (keys s))"
  let ?B = "iter (set_difference (keys s) (keys d))"
  let ?C = "iter (set_intersection (keys s) (keys d))"
  have dA: "distinct (set_difference (keys d) (keys s))"
    and dB: "distinct (set_difference (keys s) (keys d))"
    and dC: "distinct (set_intersection (keys s) (keys d))"
    by (simp_all add: set_difference_def set_intersection_def distinct_keys)
  have sA: "set ?A = set (keys d) - set (keys s)"
    using assms dA by (auto simp: set_order_def set_difference_def)
  have sB: "set ?B = set (keys s) - set (keys d)"
    using assms dB by (auto simp: set_order_def set_difference_def)
  have sC: "set ?C = set (keys s) \<inter> set (keys d)"
    using assms dC by (auto simp: set_order_def set_intersection_def)
  have A: "\<forall>p \<in> set ?A. spec_classify s d p = Some Nas_only"
    unfolding sA by (auto simp: spec_classify_def in_keys_iff split: option.splits)
  have B: "\<forall>p \<in> set ?B. spec_classify s d p = Some Cs_only"
    unfolding sB by (auto simp: spec_classify_def in_keys_iff split: option.splits)
  have C: "\<forall>p \<in> set ?C. map_of s p \<noteq> None \<and> map_of d p \<noteq> None"
    unfolding sC by (simp add: in_keys_iff)
  let ?c1 = "fold (\<lambda>path. append_change (get_dir_key path) Nas_only path) ?A []"
  let ?c2 = "fold (\<lambda>path. append_change (get_dir_key path) Cs_only path) ?B ?c1"
  from compare_both_selected [OF C, of ?c2] obtain c where
    c: "compare_both s d ?C ?c2 = Inr c" and
    g: "\<forall>dk k. changes_get c dk k = changes_get ?c2 dk k @ selected s d dk k ?C"
    by blast
  have "compare_listings iter s d = Inr c"
    using c by (simp add: compare_listings_def Let_def)
  moreover have "\<forall>dk k. changes_get c dk k = selected s d dk k (visited iter s d)"
    using g by (simp add: fold_cs_only [OF B] fold_nas_only [OF A] changes_get_Nil
        visited_def selected_def)
  ultimately show ?thesis by blast
qed

lemma set_visited:
  assumes "set_order iter"
  shows "set (visited iter s d) = set (keys s) \<union> set (keys d)"
    and "distinct (visited iter s d)"
proof -
  have dA: "distinct (set_difference (keys d) (keys s))"
    and dB: "distinct (set_difference (keys s) (keys d))"
    and dC: "distinct (set_intersection (keys s) (keys d))"
    by (simp_all add: set_difference_def set_intersection_def distinct_keys)
  let ?A = "iter (set_difference (keys d) (keys s))"
  let ?B = "iter (set_difference (keys s) (keys d))"
  let ?C = "iter (set_intersection (keys s) (keys d))"
  have sA: "set ?A = set (keys d) - set (keys s)" and "distinct ?A"
    using assms dA by (auto simp: set_order_def set_difference_def)
  moreover have sB: "set ?B = set (keys s) - set (keys d)" and "distinct ?B"
    using assms dB by (auto simp: set_order_def set_difference_def)
  moreover have sC: "set ?C = set (keys s) \<inter> set (keys d)" and "distinct ?C"
    using assms dC by (auto simp: set_order_def set_intersection_def)
  ultimately show "set (visited iter s d) = set (keys s) \<union> set (keys d)"
    and "distinct (visited iter s d)"
    by (auto simp: visited_def)
qed

lemma count_list_distinct: "distinct xs \<Longrightarrow> x \<in> set xs \<Longrightarrow> count_list xs x = 1"
  by (induction xs) auto

text \<open>Membership and multiplicity in the buckets of the result.\<close>

lemma compare_listings_spec_classify:
  assumes "set_order iter"
  shows "\<exists>c. compare_listings iter s d = Inr c \<and>
           (\<forall>p dk k. count_list (changes_get c dk k) p =
              (if get_dir_key p = dk \<and> spec_classify s d p = Some k then 1 else 0))"
proof -
  from compare_listings_selected [OF assms, of s d] obtain c where
    c: "compare_listings iter s d = Inr c" and
    g: "\<forall>dk k. changes_get c dk k = selected s d dk k (visited iter s d)"
    by blast
  have "count_list (changes_get c dk k) p =
          (if get_dir_key p = dk \<and> spec_classify s d p = Some k then 1 else 0)" for p dk k
  proof (cases "get_dir_key p = dk \<and> spec_classify s d p = Some k")
    case True
    then have "p \<in> set (visited iter s d)"
      by (auto simp: set_visited(1) [OF assms] spec_classify_def in_keys_iff
          split: option.splits)
    moreover have "distinct (selected s d dk k (visited iter s d))"
      using set_visited(2) [OF assms] by (simp add: selected_def)
    moreover have "p \<in> set (selected s d dk k (visited iter s d)) "
      using True calculation by (simp add: selected_def)
    ultimately show ?thesis using g
      by (simp add: count_list_distinct True)
  next
    case False
    then have "p \<notin> set (selected s d dk k (visited iter s d))"
      by (auto simp: selected_def)
    then show ?thesis using False g by (simp add: count_list_0_iff)
  qed
  with c show ?thesis by blast
qed

lemma compare_listings_member:
  assumes "set_order iter"
  shows "\<exists>c. compare_listings iter s d = Inr c \<and>
           (\<forall>p dk k. (p \<in> set (changes_get c dk k) \<longleftrightarrow>
                        get_dir_key p = dk \<and> spec_classify s d p = Some k) \<and>
                      count_list (changes_get c dk k) p \<le> 1)"
proof -
  from compare_listings_spec_classify [OF assms, of s d] obtain c where
    c: "compare_listings iter s d = Inr c" and
    g: "\<forall>p dk k. count_list (changes_get c dk k) p =
              (if get_dir_key p = dk \<and> spec_classify s d p = Some k then 1 else 0)"
    by blast
  have "(p \<in> set (changes_get c dk k) \<longleftrightarrow> get_dir_key p = dk \<and> spec_classify s d p = Some k) \<and>
        count_list (changes_get c dk k) p \<le> 1" for p dk k
    using g [rule_format, of dk k p] count_list_0_iff [of "changes_get c dk k" p]
    by (auto split: if_splits)
  with c show ?thesis by blast
qed

text \<open>
  C1. A path in both maps whose sizes differ is put in \<open>size_changed\<close> of its directory
  key, once, and in no other bucket, whatever the two timestamps are: in particular it is
  in no \<open>nas_newer\<close> and no \<open>cs_newer\<close> bucket. The comparison raises no error.
\<close>

theorem size_mismatch_only_size_changed:
  assumes "set_order iter"
    and "map_of source_map path = Some source_file"
    and "map_of dest_map path = Some dest_file"
    and "size source_file \<noteq> size dest_file"
  shows "\<exists>c. compare_listings iter source_map dest_map = Inr c \<and>
           {(dk, k). path \<in> set (changes_get c dk k)} = {(get_dir_key path, Size_changed)} \<and>
           count_list (changes_get c (get_dir_key path) Size_changed) path = 1 \<and>
           path \<notin> set (changes_get c dk Nas_newer) \<and>
           path \<notin> set (changes_get c dk Cs_newer)"
proof -
  from compare_listings_member [OF assms(1), of source_map dest_map] obtain c where
    c: "compare_listings iter source_map dest_map = Inr c" and
    m: "\<And>p dk k. p \<in> set (changes_get c dk k) \<longleftrightarrow>
          get_dir_key p = dk \<and> spec_classify source_map dest_map p = Some k" and
    n: "\<And>p dk k. count_list (changes_get c dk k) p \<le> 1"
    by blast
  have k: "spec_classify source_map dest_map path = Some Size_changed"
    using assms(2-4) by (simp add: spec_classify_def)
  have "{(dk, k). path \<in> set (changes_get c dk k)} = {(get_dir_key path, Size_changed)}"
    using m k by auto
  moreover have "path \<in> set (changes_get c (get_dir_key path) Size_changed)"
    using m k by simp
  then have "count_list (changes_get c (get_dir_key path) Size_changed) path = 1"
    using n [of "get_dir_key path" Size_changed path]
      count_list_0_iff [of "changes_get c (get_dir_key path) Size_changed" path]
    by linarith
  moreover have "path \<notin> set (changes_get c dk Nas_newer)"
    and "path \<notin> set (changes_get c dk Cs_newer)"
    using m k by simp_all
  ultimately show ?thesis using c by blast
qed

theorem size_mismatch_only_size_changed_witness:
  "set_order rev \<and>
   map_of [(''foo/a.txt'', \<lparr>size = 100, mod_time = 7\<rparr>)] ''foo/a.txt''
     = Some \<lparr>size = 100, mod_time = 7\<rparr> \<and>
   map_of [(''foo/a.txt'', \<lparr>size = 200, mod_time = 9\<rparr>)] ''foo/a.txt''
     = Some \<lparr>size = 200, mod_time = 9\<rparr> \<and>
   size \<lparr>size = 100, mod_time = 7\<rparr> \<noteq> size \<lparr>size = 200, mod_time = 9\<rparr> \<and>
   (\<exists>c. compare_listings rev [(''foo/a.txt'', \<lparr>size = 100, mod_time = 7\<rparr>)]
          [(''foo/a.txt'', \<lparr>size = 200, mod_time = 9\<rparr>)] = Inr c \<and>
        {(dk, k). ''foo/a.txt'' \<in> set (changes_get c dk k)} = {(''foo'', Size_changed)} \<and>
        count_list (changes_get c ''foo'' Size_changed) ''foo/a.txt'' = 1 \<and>
        ''foo/a.txt'' \<notin> set (changes_get c ''foo'' Nas_newer) \<and>
        ''foo/a.txt'' \<notin> set (changes_get c ''foo'' Cs_newer))"
proof -
  have o: "set_order rev" by (simp add: set_order_def)
  have s: "map_of [(''foo/a.txt'', \<lparr>size = 100, mod_time = 7\<rparr>)] ''foo/a.txt''
     = Some \<lparr>size = 100, mod_time = 7\<rparr>" by simp
  have d: "map_of [(''foo/a.txt'', \<lparr>size = 200, mod_time = 9\<rparr>)] ''foo/a.txt''
     = Some \<lparr>size = 200, mod_time = 9\<rparr>" by simp
  have n: "size \<lparr>size = 100, mod_time = 7\<rparr> \<noteq> size \<lparr>size = 200, mod_time = 9\<rparr>" by simp
  have k: "get_dir_key ''foo/a.txt'' = ''foo''" by (simp add: get_dir_key_def)
  from size_mismatch_only_size_changed [OF o s d n, of "''foo''"] o s d n k
  show ?thesis by simp
qed

text \<open>
  C2. A path in both maps with equal sizes is put in \<open>nas_newer\<close> of its directory key when
  the destination's timestamp is strictly later, in \<open>cs_newer\<close> when it is strictly
  earlier, and in no bucket at all when the timestamps are equal.
\<close>

theorem equal_size_timestamp_classification:
  assumes "set_order iter"
    and "map_of source_map path = Some source_file"
    and "map_of dest_map path = Some dest_file"
    and "size source_file = size dest_file"
  shows "\<exists>c. compare_listings iter source_map dest_map = Inr c \<and>
           {(dk, k). path \<in> set (changes_get c dk k)} =
             (if mod_time dest_file = mod_time source_file then {}
              else {(get_dir_key path,
                     if mod_time dest_file > mod_time source_file then Nas_newer else Cs_newer)}) \<and>
           count_list (changes_get c dk k) path \<le> 1"
proof -
  from compare_listings_member [OF assms(1), of source_map dest_map] obtain c where
    c: "compare_listings iter source_map dest_map = Inr c" and
    m: "\<And>p dk k. p \<in> set (changes_get c dk k) \<longleftrightarrow>
          get_dir_key p = dk \<and> spec_classify source_map dest_map p = Some k" and
    n: "\<And>p dk k. count_list (changes_get c dk k) p \<le> 1"
    by blast
  have k: "spec_classify source_map dest_map path =
      (if mod_time dest_file = mod_time source_file then None
       else Some (if mod_time dest_file > mod_time source_file then Nas_newer else Cs_newer))"
    using assms(2-4) by (simp add: spec_classify_def)
  have "{(dk, k). path \<in> set (changes_get c dk k)} =
             (if mod_time dest_file = mod_time source_file then {}
              else {(get_dir_key path,
                     if mod_time dest_file > mod_time source_file then Nas_newer else Cs_newer)})"
    using m k by auto
  with c n show ?thesis by blast
qed

theorem equal_size_timestamp_classification_witness:
  "set_order rev \<and>
   map_of [(''foo/a.txt'', \<lparr>size = 100, mod_time = 7\<rparr>)] ''foo/a.txt''
     = Some \<lparr>size = 100, mod_time = 7\<rparr> \<and>
   map_of [(''foo/a.txt'', \<lparr>size = 100, mod_time = 9\<rparr>)] ''foo/a.txt''
     = Some \<lparr>size = 100, mod_time = 9\<rparr> \<and>
   size \<lparr>size = 100, mod_time = 7\<rparr> = size \<lparr>size = 100, mod_time = 9\<rparr> \<and>
   (\<exists>c. compare_listings rev [(''foo/a.txt'', \<lparr>size = 100, mod_time = 7\<rparr>)]
          [(''foo/a.txt'', \<lparr>size = 100, mod_time = 9\<rparr>)] = Inr c \<and>
        {(dk, k). ''foo/a.txt'' \<in> set (changes_get c dk k)} = {(''foo'', Nas_newer)} \<and>
        count_list (changes_get c ''foo'' Nas_newer) ''foo/a.txt'' \<le> 1)"
proof -
  have o: "set_order rev" by (simp add: set_order_def)
  have s: "map_of [(''foo/a.txt'', \<lparr>size = 100, mod_time = 7\<rparr>)] ''foo/a.txt''
     = Some \<lparr>size = 100, mod_time = 7\<rparr>" by simp
  have d: "map_of [(''foo/a.txt'', \<lparr>size = 100, mod_time = 9\<rparr>)] ''foo/a.txt''
     = Some \<lparr>size = 100, mod_time = 9\<rparr>" by simp
  have n: "size \<lparr>size = 100, mod_time = 7\<rparr> = size \<lparr>size = 100, mod_time = 9\<rparr>" by simp
  have k: "get_dir_key ''foo/a.txt'' = ''foo''" by (simp add: get_dir_key_def)
  from equal_size_timestamp_classification [OF o s d n, of "''foo''" Nas_newer] o s d n k
  show ?thesis by simp
qed

text \<open>
  C3. Every path in exactly one of the two maps is put, once, in \<open>nas_only\<close> (present only
  in the destination) or \<open>cs_only\<close> (present only in the source) of its own directory
  key and in no other bucket; and any path in any bucket is there under its own directory
  key, in one kind only, and once.
\<close>

theorem symmetric_difference_classified:
  assumes "set_order iter"
  shows "\<exists>c. compare_listings iter source_map dest_map = Inr c \<and>
           (\<forall>p. (map_of source_map p = None) \<noteq> (map_of dest_map p = None) \<longrightarrow>
              {(dk, k). p \<in> set (changes_get c dk k)} =
                {(get_dir_key p, if map_of source_map p = None then Nas_only else Cs_only)} \<and>
              count_list (changes_get c (get_dir_key p)
                (if map_of source_map p = None then Nas_only else Cs_only)) p = 1) \<and>
           (\<forall>p dk k dk' k'.
              p \<in> set (changes_get c dk k) \<and> p \<in> set (changes_get c dk' k') \<longrightarrow>
              dk = get_dir_key p \<and> dk' = dk \<and> k' = k) \<and>
           (\<forall>p dk k. count_list (changes_get c dk k) p \<le> 1)"
proof -
  from compare_listings_member [OF assms(1), of source_map dest_map] obtain c where
    c: "compare_listings iter source_map dest_map = Inr c" and
    m: "\<And>p dk k. p \<in> set (changes_get c dk k) \<longleftrightarrow>
          get_dir_key p = dk \<and> spec_classify source_map dest_map p = Some k" and
    n: "\<And>p dk k. count_list (changes_get c dk k) p \<le> 1"
    by blast
  have a: "{(dk, k). p \<in> set (changes_get c dk k)} =
             {(get_dir_key p, if map_of source_map p = None then Nas_only else Cs_only)} \<and>
           count_list (changes_get c (get_dir_key p)
             (if map_of source_map p = None then Nas_only else Cs_only)) p = 1"
    if "(map_of source_map p = None) \<noteq> (map_of dest_map p = None)" for p
  proof -
    let ?k = "if map_of source_map p = None then Nas_only else Cs_only"
    have k: "spec_classify source_map dest_map p = Some ?k"
      using that by (auto simp: spec_classify_def split: option.splits)
    have "{(dk, k). p \<in> set (changes_get c dk k)} = {(get_dir_key p, ?k)}"
      by (auto simp: m k)
    moreover have "p \<in> set (changes_get c (get_dir_key p) ?k)"
      using m k by simp
    then have "count_list (changes_get c (get_dir_key p) ?k) p = 1"
      using n [of "get_dir_key p" ?k p] count_list_0_iff [of "changes_get c (get_dir_key p) ?k" p]
      by linarith
    ultimately show ?thesis by blast
  qed
  have b: "dk = get_dir_key p \<and> dk' = dk \<and> k' = k"
    if "p \<in> set (changes_get c dk k) \<and> p \<in> set (changes_get c dk' k')" for p dk k dk' k'
  proof -
    from that m [of p dk k] have 1: "get_dir_key p = dk"
      and 2: "spec_classify source_map dest_map p = Some k" by simp_all
    from that m [of p dk' k'] have 3: "get_dir_key p = dk'"
      and 4: "spec_classify source_map dest_map p = Some k'" by simp_all
    from 1 2 3 4 show ?thesis by simp
  qed
  have A: "\<forall>p. (map_of source_map p = None) \<noteq> (map_of dest_map p = None) \<longrightarrow>
              {(dk, k). p \<in> set (changes_get c dk k)} =
                {(get_dir_key p, if map_of source_map p = None then Nas_only else Cs_only)} \<and>
              count_list (changes_get c (get_dir_key p)
                (if map_of source_map p = None then Nas_only else Cs_only)) p = 1"
    using a by (intro allI impI)
  have B: "\<forall>p dk k dk' k'.
              p \<in> set (changes_get c dk k) \<and> p \<in> set (changes_get c dk' k') \<longrightarrow>
              dk = get_dir_key p \<and> dk' = dk \<and> k' = k"
    using b by (intro allI impI)
  have N: "\<forall>p dk k. count_list (changes_get c dk k) p \<le> 1"
    using n by (intro allI)
  show ?thesis
    by (rule exI [of _ c]) (intro conjI c A B N)
qed

theorem symmetric_difference_classified_witness:
  "set_order rev \<and>
   (map_of example_source ''bar/z.txt'' = None) \<noteq> (map_of example_dest ''bar/z.txt'' = None) \<and>
   (map_of example_source ''x.txt'' = None) \<noteq> (map_of example_dest ''x.txt'' = None) \<and>
   (\<exists>c. compare_listings rev example_source example_dest = Inr c \<and>
      {(dk, k). ''bar/z.txt'' \<in> set (changes_get c dk k)} = {(''bar'', Nas_only)} \<and>
      count_list (changes_get c ''bar'' Nas_only) ''bar/z.txt'' = 1 \<and>
      {(dk, k). ''x.txt'' \<in> set (changes_get c dk k)} = {(''(root)'', Cs_only)} \<and>
      count_list (changes_get c ''(root)'' Cs_only) ''x.txt'' = 1)"
proof -
  have o: "set_order rev" by (simp add: set_order_def)
  have z: "(map_of example_source ''bar/z.txt'' = None) \<noteq> (map_of example_dest ''bar/z.txt'' = None)"
    and zs: "map_of example_source ''bar/z.txt'' = None"
    and zk: "get_dir_key ''bar/z.txt'' = ''bar''"
    by (simp_all add: example_source_def example_dest_def get_dir_key_def)
  have x: "(map_of example_source ''x.txt'' = None) \<noteq> (map_of example_dest ''x.txt'' = None)"
    and xs: "map_of example_source ''x.txt'' \<noteq> None"
    and xk: "get_dir_key ''x.txt'' = ''(root)''"
    by (simp_all add: example_source_def example_dest_def get_dir_key_def)
  from symmetric_difference_classified [OF o, of example_source example_dest] obtain c where
    c: "compare_listings rev example_source example_dest = Inr c" and
    a: "\<And>p. (map_of example_source p = None) \<noteq> (map_of example_dest p = None) \<Longrightarrow>
              {(dk, k). p \<in> set (changes_get c dk k)} =
                {(get_dir_key p, if map_of example_source p = None then Nas_only else Cs_only)} \<and>
              count_list (changes_get c (get_dir_key p)
                (if map_of example_source p = None then Nas_only else Cs_only)) p = 1"
    by blast
  from a [OF z] a [OF x] zs xs zk xk c o z x show ?thesis by auto
qed



section \<open>Properties of the model of doubles\<close>

lemma pow2_powi: "pow2 e = 2 powi e"
  by (simp add: pow2_def power_int_def inverse_eq_divide power_one_over)

lemma pow2_pos: "0 < pow2 e"
  by (simp add: pow2_powi)

lemma pow2_add: "pow2 (a + b) = pow2 a * pow2 b"
  by (simp add: pow2_powi power_int_add)

lemma pow2_diff: "pow2 (a - b) = pow2 a / pow2 b"
  by (simp add: pow2_powi power_int_diff)

lemma pow2_nat: "0 \<le> e \<Longrightarrow> pow2 e = 2 ^ nat e"
  by (simp add: pow2_def)

lemma pow2_strict_mono: "a < b \<Longrightarrow> pow2 a < pow2 b"
  by (simp add: pow2_powi power_int_strict_increasing)

lemma pow2_mono: "a \<le> b \<Longrightarrow> pow2 a \<le> pow2 b"
  using pow2_strict_mono [of a b] by (cases "a = b") auto

lemma pow2_less_cancel: "pow2 a < pow2 b \<Longrightarrow> a < b"
  using pow2_mono [of b a] by (cases "a < b") auto

lemma int_between_pow2:
  assumes "0 < a"
  shows "pow2 (bitlen a - 1) \<le> of_int a" and "of_int a < pow2 (bitlen a)"
proof -
  from bitlen_bounds [OF assms] have l: "2 ^ nat (bitlen a - 1) \<le> a" and u: "a < 2 ^ nat (bitlen a)"
    by simp_all
  have ge: "1 \<le> bitlen a" using assms by (auto simp: bitlen_alt_def)
  have "(of_int (2 ^ nat (bitlen a - 1)) :: rat) \<le> of_int a"
    using l by (simp only: of_int_le_iff)
  then show "pow2 (bitlen a - 1) \<le> of_int a"
    using ge by (simp add: pow2_nat)
  have "(of_int a :: rat) < of_int (2 ^ nat (bitlen a))"
    using u by (simp only: of_int_less_iff)
  then show "of_int a < pow2 (bitlen a)"
    using ge by (simp add: pow2_nat)
qed

lemma ilog2_bounds:
  assumes "0 < x"
  shows "pow2 (ilog2 x) \<le> x" and "x < pow2 (ilog2 x + 1)"
proof -
  obtain a b where q: "quotient_of x = (a, b)" by (cases "quotient_of x")
  have b: "0 < b" using q by (rule quotient_of_denom_pos)
  have x: "x = of_int a / of_int b" using q by (rule quotient_of_div)
  have a: "0 < a"
    using assms b x by (simp add: zero_less_divide_iff)
  let ?k = "bitlen a - bitlen b"
  have lo: "pow2 (?k - 1) < x"
  proof -
    have "pow2 (?k - 1) = pow2 (bitlen a - 1) / pow2 (bitlen b)"
      by (simp add: pow2_diff [symmetric] algebra_simps)
    also have "\<dots> \<le> of_int a / pow2 (bitlen b)"
      using int_between_pow2(1) [OF a] pow2_pos [of "bitlen b"] by (simp add: divide_right_mono)
    also have "\<dots> < of_int a / of_int b"
      using int_between_pow2(2) [OF b] a b by (simp add: divide_strict_left_mono)
    finally show ?thesis using x by simp
  qed
  have hi: "x < pow2 (?k + 1)"
  proof -
    have "x < pow2 (bitlen a) / of_int b"
      using int_between_pow2(2) [OF a] b x by (simp add: divide_strict_right_mono)
    also have "\<dots> \<le> pow2 (bitlen a) / pow2 (bitlen b - 1)"
      using int_between_pow2(1) [OF b] pow2_pos [of "bitlen a"] pow2_pos [of "bitlen b - 1"]
      by (simp add: divide_left_mono)
    also have "\<dots> = pow2 (?k + 1)"
      by (simp add: pow2_diff [symmetric] algebra_simps)
    finally show ?thesis .
  qed
  have i: "ilog2 x = (if pow2 ?k \<le> x then ?k else ?k - 1)"
    using q by (simp add: ilog2_def Let_def)
  show "pow2 (ilog2 x) \<le> x" using i lo by (auto split: if_splits)
  show "x < pow2 (ilog2 x + 1)" using i hi by (auto split: if_splits)
qed

lemma ilog2_less:
  assumes "0 < x" and "x < pow2 n"
  shows "ilog2 x < n"
  using ilog2_bounds(1) [OF assms(1)] assms(2) pow2_less_cancel [of "ilog2 x" n] by simp

lemma ilog2_ge:
  assumes "0 < x" and "pow2 n \<le> x"
  shows "n \<le> ilog2 x"
proof -
  have "pow2 n < pow2 (ilog2 x + 1)" using ilog2_bounds(2) [OF assms(1)] assms(2) by simp
  then show ?thesis using pow2_less_cancel by fastforce
qed

lemma round_half_even_of_int: "round_half_even (of_int m) = m"
  by (simp add: round_half_even_def)

lemma round_half_even_error: "\<bar>of_int (round_half_even y) - y\<bar> \<le> 1 / 2"
proof -
  have "of_int \<lfloor>y\<rfloor> \<le> y" and "y < of_int \<lfloor>y\<rfloor> + 1" by linarith+
  then show ?thesis
    by (auto simp: round_half_even_def Let_def abs_le_iff)
qed

lemma to_double_exact:
  assumes m: "0 < m" "m < 2 ^ 53" and k: "- 1074 \<le> k"
  shows "to_double (of_int m * pow2 k) = of_int m * pow2 k"
proof -
  let ?x = "of_int m * pow2 k :: rat"
  have pos: "0 < ?x" using m pow2_pos [of k] by simp
  have "(of_int m :: rat) < of_int (2 ^ 53)" using m(2) by (simp only: of_int_less_iff)
  then have "(of_int m :: rat) < pow2 53" by (simp add: pow2_def)
  then have "?x < pow2 53 * pow2 k" using pow2_pos [of k] by simp
  then have "?x < pow2 (53 + k)" by (simp add: pow2_add)
  then have il: "ilog2 ?x < 53 + k" using pos by (rule ilog2_less [rotated])
  define e where "e = max (ilog2 \<bar>?x\<bar> - 52) (- 1074)"
  have e: "e \<le> k" using il k pos by (simp add: e_def abs_of_pos)
  have "?x / pow2 e = of_int m * pow2 (k - e)"
    by (simp add: pow2_diff)
  also have "\<dots> = of_int (m * 2 ^ nat (k - e))"
    using e by (simp add: pow2_nat)
  finally have "round_half_even (?x / pow2 e) = m * 2 ^ nat (k - e)"
    by (simp only: round_half_even_of_int)
  then have "of_int (round_half_even (?x / pow2 e)) * pow2 e = of_int m * pow2 (k - e) * pow2 e"
    using e by (simp add: pow2_nat)
  also have "\<dots> = ?x"
    using pow2_pos [of e] by (simp add: pow2_diff)
  finally show ?thesis
    using pos by (simp add: to_double_def e_def Let_def)
qed

lemma to_double_of_int:
  assumes "0 \<le> n" "n < 2 ^ 53"
  shows "to_double (of_int n) = of_int n"
proof (cases "n = 0")
  case True
  then show ?thesis by (simp add: to_double_def)
next
  case False
  with assms have "0 < n" by simp
  from to_double_exact [OF this assms(2), of 0] show ?thesis by (simp add: pow2_def)
qed

lemma to_double_error:
  assumes "1 \<le> x"
  shows "\<bar>to_double x - x\<bar> \<le> x / 2 ^ 53"
proof -
  have pos: "0 < x" using assms by simp
  have "pow2 0 \<le> x" using assms by (simp add: pow2_def)
  then have i0: "0 \<le> ilog2 x" using pos by (rule ilog2_ge [rotated])
  define e where "e = ilog2 x - 52"
  have e: "max (ilog2 \<bar>x\<bar> - 52) (- 1074) = e" using i0 pos by (simp add: e_def abs_of_pos)
  have td: "to_double x = of_int (round_half_even (x / pow2 e)) * pow2 e"
    using pos e by (simp add: to_double_def Let_def)
  have "to_double x - x = (of_int (round_half_even (x / pow2 e)) - x / pow2 e) * pow2 e"
    using pow2_pos [of e] by (simp add: td left_diff_distrib)
  then have "\<bar>to_double x - x\<bar> = \<bar>of_int (round_half_even (x / pow2 e)) - x / pow2 e\<bar> * pow2 e"
    using pow2_pos [of e] by (simp only: abs_mult abs_of_pos)
  also have "\<dots> \<le> 1 / 2 * pow2 e"
    using round_half_even_error [of "x / pow2 e"] pow2_pos [of e]
    by (intro mult_right_mono) simp_all
  also have "\<dots> = 1 / 2 * (pow2 (ilog2 x) / pow2 52)"
    by (simp only: e_def pow2_diff)
  also have "\<dots> = pow2 (ilog2 x) / 2 ^ 53"
    by (simp add: pow2_nat)
  also have "\<dots> \<le> x / 2 ^ 53"
    using ilog2_bounds(1) [OF pos] by (simp add: divide_right_mono)
  finally show ?thesis .
qed

lemma floor_to_double_quotient:
  assumes d: "0 < d" "d \<le> 86400" and a: "d \<le> a" "a < d * 2 ^ 36"
  shows "\<lfloor>to_double (of_int a / of_int d)\<rfloor> = a div d"
proof -
  let ?x = "of_int a / of_int d :: rat"
  have x1: "1 \<le> ?x" using d a by simp
  have "(of_int a :: rat) < of_int (d * 2 ^ 36)" using a(2) by (simp only: of_int_less_iff)
  then have xu: "?x < 2 ^ 36" using d by (simp add: pos_divide_less_eq mult.commute)
  show ?thesis
  proof (cases "a mod d = 0")
    case True
    then have ad: "a = (a div d) * d" by auto
    have f: "0 \<le> a div d" using d a by (simp add: pos_imp_zdiv_nonneg_iff)
    have "(of_int (a div d) :: rat) = ?x"
      using d by (subst (2) ad) simp
    moreover have "of_int (a div d) \<le> ?x" using calculation by simp
    then have "(of_int (a div d) :: rat) < of_int (2 ^ 53)" using xu by simp
    then have "a div d < 2 ^ 53" by (simp only: of_int_less_iff)
    ultimately have "to_double ?x = of_int (a div d)"
      using to_double_of_int [OF f] by simp
    then show ?thesis by simp
  next
    case False
    define r where "r = a mod d"
    have "0 \<le> a mod d" and "a mod d < d" using d by simp_all
    then have r: "1 \<le> r" "r \<le> d - 1" using False by (simp_all add: r_def)
    have ad: "a = (a div d) * d + r" by (simp add: r_def)
    have x: "?x = of_int (a div d) + of_int r / of_int d"
      using d by (subst ad) (simp add: add_divide_distrib)
    have "(1 :: rat) \<le> of_int r" and "(of_int r :: rat) \<le> of_int d - 1"
      using r by (simp_all flip: of_int_diff)
    then have lo: "1 / of_int d \<le> (of_int r / of_int d :: rat)"
      and hi: "(of_int r / of_int d :: rat) \<le> 1 - 1 / of_int d"
      using d by (simp_all add: divide_right_mono diff_divide_distrib [symmetric] field_simps)
    have "(of_int d :: rat) \<le> of_int 86400" using d by (simp only: of_int_le_iff)
    then have dd: "(1 / 86400 :: rat) \<le> 1 / of_int d"
      using d by (simp add: frac_le)
    have err: "\<bar>to_double ?x - ?x\<bar> < 1 / 86400"
      using to_double_error [OF x1] xu by simp
    have "of_int (a div d) < to_double ?x" and "to_double ?x < of_int (a div d) + 1"
      using x lo hi dd err by linarith+
    then show ?thesis by (simp add: floor_unique)
  qed
qed

lemma to_double_quotient_eq_1:
  assumes d: "0 < d" "d \<le> 86400" and a: "d \<le> a" "a < d * 2 ^ 36"
  shows "to_double (of_int a / of_int d) = 1 \<longleftrightarrow> a = d"
proof
  assume "a = d"
  then show "to_double (of_int a / of_int d) = 1"
    using d to_double_of_int [of 1] by simp
next
  assume t: "to_double (of_int a / of_int d) = 1"
  show "a = d"
  proof (rule ccontr)
    assume "a \<noteq> d"
    let ?x = "of_int a / of_int d :: rat"
    have x1: "1 \<le> ?x" using d a by simp
    from \<open>a \<noteq> d\<close> a have "d + 1 \<le> a" by simp
    then have "(of_int (d + 1) :: rat) \<le> of_int a" by (simp only: of_int_le_iff)
    then have "(of_int d + 1) / of_int d \<le> ?x" using d by (simp add: divide_right_mono)
    then have lo: "1 + 1 / of_int d \<le> ?x" using d by (simp add: add_divide_distrib)
    have "(of_int d :: rat) \<le> of_int 86400" using d by (simp only: of_int_le_iff)
    then have dd: "(1 / 86400 :: rat) \<le> 1 / of_int d"
      using d by (simp add: frac_le)
    have "\<bar>to_double ?x - ?x\<bar> \<le> ?x / 2 ^ 53" by (rule to_double_error [OF x1])
    with t lo dd show False by simp
  qed
qed


section \<open>Properties of human\_readable\_bytes\<close>

lemma to_double_scaled:
  assumes "0 < b" "b < 2 ^ 53"
  shows "to_double (of_int b / 1024) = of_int b / 1024"
    and "to_double (of_int b / 1048576) = of_int b / 1048576"
    and "to_double (of_int b / 1073741824) = of_int b / 1073741824"
    and "to_double (of_int b / 1099511627776) = of_int b / 1099511627776"
  using to_double_exact [OF assms, of "- 10"] to_double_exact [OF assms, of "- 20"]
    to_double_exact [OF assms, of "- 30"] to_double_exact [OF assms, of "- 40"]
  by (simp_all add: pow2_def)

lemma truediv_int_exact:
  assumes "0 < b" "b < 2 ^ 53"
  shows "truediv (I b) 1024 = Inr (of_int b / 1024)"
proof -
  have "(of_int b :: rat) < of_int (2 ^ 53)" using assms(2) by (simp only: of_int_less_iff)
  then have "(of_int b / 1024 :: rat) < pow2 53" using assms(1) by (simp add: pow2_def)
  also have "\<dots> \<le> pow2 1024" by (rule pow2_mono) simp
  finally have "\<not> pow2 1024 \<le> \<bar>of_int b / 1024 :: rat\<bar>" using assms(1) by simp
  then show ?thesis
    by (simp add: truediv_def to_double_scaled(1) [OF assms] Let_def)
qed

lemma truediv_float_1024: "truediv (F q) 1024 = Inr (to_double (q / 1024))"
  using to_double_of_int [of 1024] by (simp add: truediv_def)

lemma human_readable_bytes_below_2_53:
  assumes "0 < b" "b < 2 ^ 53"
  shows "human_readable_bytes (Some b) =
     Inr (if b < 1024 then format_1f (of_int b) @ ''B''
          else if b < 1024 ^ 2 then format_1f (of_int b / 1024) @ ''KB''
          else if b < 1024 ^ 3 then format_1f (of_int b / 1024 ^ 2) @ ''MB''
          else if b < 1024 ^ 4 then format_1f (of_int b / 1024 ^ 3) @ ''GB''
          else format_1f (of_int b / 1024 ^ 4) @ ''TB'')"
proof -
  note td = to_double_scaled [OF assms]
  note ti = truediv_int_exact [OF assms]
  have b0: "to_double (of_int b) = of_int b"
    using to_double_of_int [of b] assms by simp
  consider "b < 1024" | "1024 \<le> b" "b < 1024 ^ 2" | "1024 ^ 2 \<le> b" "b < 1024 ^ 3"
    | "1024 ^ 3 \<le> b" "b < 1024 ^ 4" | "1024 ^ 4 \<le> b"
    by linarith
  then show ?thesis
  proof cases
    case 1
    then have "bytes_loop (I b) 0 = Inr (I b, 0)"
      by (simp add: bytes_loop.simps [of "I b"] num_val_def)
    then show ?thesis using 1 assms
      by (simp add: human_readable_bytes_def num_float_def b0 power_labels_def)
  next
    case 2
    then have "bytes_loop (I b) 0 = Inr (F (of_int b / 1024), 1)"
      by (simp add: bytes_loop.simps [of "I b"] bytes_loop.simps [of "F x" for x] num_val_def ti)
    then show ?thesis using 2 assms
      by (simp add: human_readable_bytes_def num_float_def power_labels_def)
  next
    case 3
    then have "bytes_loop (I b) 0 = Inr (F (of_int b / 1048576), 2)"
      by (simp add: bytes_loop.simps [of "I b"] bytes_loop.simps [of "F x" for x] num_val_def ti
          truediv_float_1024 td)
    then show ?thesis using 3 assms
      by (simp add: human_readable_bytes_def num_float_def power_labels_def)
  next
    case 4
    then have "bytes_loop (I b) 0 = Inr (F (of_int b / 1073741824), 3)"
      by (simp add: bytes_loop.simps [of "I b"] bytes_loop.simps [of "F x" for x] num_val_def ti
          truediv_float_1024 td)
    then show ?thesis using 4 assms
      by (simp add: human_readable_bytes_def num_float_def power_labels_def)
  next
    case 5
    then have "bytes_loop (I b) 0 = Inr (F (of_int b / 1099511627776), 4)"
      by (simp add: bytes_loop.simps [of "I b"] bytes_loop.simps [of "F x" for x] num_val_def ti
          truediv_float_1024 td)
    then show ?thesis using 5 assms
      by (simp add: human_readable_bytes_def num_float_def power_labels_def)
  qed
qed

lemma bytes_0: "human_readable_bytes (Some 0) = Inr ''0B''"
  by (simp add: human_readable_bytes_def)

lemma bytes_1536: "human_readable_bytes (Some 1536) = Inr ''1.5KB''"
  by code_simp

lemma bytes_2_30: "human_readable_bytes (Some 1073741824) = Inr ''1.0GB''"
  by code_simp

lemma bytes_None: "human_readable_bytes None = Inr ''N/A''"
  by (simp add: human_readable_bytes_def)

lemma bytes_negative: "b < 0 \<Longrightarrow> human_readable_bytes (Some b) = Inr ''N/A''"
  by (simp add: human_readable_bytes_def)

text \<open>
  C8. \<open>human_readable_bytes\<close> maps 0 to \<open>0B\<close>, 1536 to \<open>1.5KB\<close>, 1073741824 to \<open>1.0GB\<close>,
  and a missing or negative size to \<open>N/A\<close>. For every size from 1 up to \<open>2\<^sup>5\<^sup>3\<close> (where
  the divisions by 1024 are exact) the text is the size divided by the largest power of
  1024 not above it, up to \<open>1024\<^sup>4\<close>, printed with one decimal place, followed by the
  suffix of that power and \<open>B\<close>.
\<close>

theorem human_readable_bytes_spec:
  "human_readable_bytes (Some 0) = Inr ''0B'' \<and>
   human_readable_bytes (Some 1536) = Inr ''1.5KB'' \<and>
   human_readable_bytes (Some 1073741824) = Inr ''1.0GB'' \<and>
   human_readable_bytes None = Inr ''N/A'' \<and>
   (\<forall>b < 0. human_readable_bytes (Some b) = Inr ''N/A'') \<and>
   (\<forall>b. 0 < b \<and> b < 2 ^ 53 \<longrightarrow>
      human_readable_bytes (Some b) =
        Inr (if b < 1024 then format_1f (of_int b) @ ''B''
             else if b < 1024 ^ 2 then format_1f (of_int b / 1024) @ ''KB''
             else if b < 1024 ^ 3 then format_1f (of_int b / 1024 ^ 2) @ ''MB''
             else if b < 1024 ^ 4 then format_1f (of_int b / 1024 ^ 3) @ ''GB''
             else format_1f (of_int b / 1024 ^ 4) @ ''TB''))"
  using bytes_0 bytes_1536 bytes_2_30 bytes_None bytes_negative
    human_readable_bytes_below_2_53
  by blast

theorem human_readable_bytes_spec_witness:
  "(- 1 :: int) < 0 \<and> human_readable_bytes (Some (- 1)) = Inr ''N/A'' \<and>
   (0 :: int) < 1536 \<and> (1536 :: int) < 2 ^ 53 \<and>
   human_readable_bytes (Some 1536) = Inr (format_1f (3 / 2) @ ''KB'')"
proof -
  have a: "(- 1 :: int) < 0" and b: "(0 :: int) < 1536 \<and> (1536 :: int) < 2 ^ 53" by simp_all
  from human_readable_bytes_spec a have 1: "human_readable_bytes (Some (- 1)) = Inr ''N/A''"
    by blast
  from human_readable_bytes_spec b have "human_readable_bytes (Some 1536) =
        Inr (if (1536 :: int) < 1024 then format_1f (of_int 1536) @ ''B''
             else if (1536 :: int) < 1024 ^ 2 then format_1f (of_int 1536 / 1024) @ ''KB''
             else if (1536 :: int) < 1024 ^ 3 then format_1f (of_int 1536 / 1024 ^ 2) @ ''MB''
             else if (1536 :: int) < 1024 ^ 4 then format_1f (of_int 1536 / 1024 ^ 3) @ ''GB''
             else format_1f (of_int 1536 / 1024 ^ 4) @ ''TB'')"
    by blast
  then have 2: "human_readable_bytes (Some 1536) = Inr (format_1f (3 / 2) @ ''KB'')"
    by simp
  from a b 1 2 show ?thesis by blast
qed

section \<open>Properties of human\_readable\_time\<close>

lemma total_seconds_whole:
  assumes "0 \<le> n" "n < 2 ^ 53"
  shows "\<bar>to_double (of_int (n * 1000000) / 1000000)\<bar> = of_int n"
proof -
  have "(of_int (n * 1000000) / 1000000 :: rat) = of_int n" by simp
  then show ?thesis using to_double_of_int [OF assms] assms(1) by simp
qed

lemma human_readable_time_whole_seconds:
  assumes "0 \<le> n" and "n < 86400 * 1000000000"
  shows "human_readable_time (n * 1000000) =
     (if n < 60 then str_int n @ '' second'' @ plural (n \<noteq> 1)
      else if n < 3600 then str_int (n div 60) @ '' minute'' @ plural (n div 60 \<noteq> 1)
      else if n < 86400
      then format_1f (to_double (of_int n / 3600)) @ '' hour'' @ plural (n \<noteq> 3600)
      else if n < 604800
      then format_1f (to_double (of_int n / 86400)) @ '' day'' @ plural (n \<noteq> 86400)
      else
        (let days = n div 86400 in
         if days < 30
         then str_int (days div 7) @ '' week'' @ plural (days div 7 \<noteq> 1) @ '', '' @
              str_int (days mod 7) @ '' day'' @ plural (days mod 7 \<noteq> 1)
         else if days < 365
         then str_int (days div 30) @ '' month'' @ plural (days div 30 \<noteq> 1) @ '', '' @
              str_int (days mod 30 div 7) @ '' week'' @ plural (days mod 30 div 7 \<noteq> 1)
         else str_int (days div 365) @ '' year'' @ plural (days div 365 \<noteq> 1) @ '', '' @
              str_int (days mod 365 div 30) @ '' month'' @ plural (days mod 365 div 30 \<noteq> 1)))"
proof -
  have n53: "n < 2 ^ 53" using assms(2) by simp
  have s: "\<bar>to_double (of_int (n * 1000000) / 1000000)\<bar> = of_int n"
    by (rule total_seconds_whole [OF assms(1) n53])
  have m: "\<lfloor>to_double (of_int n / 60)\<rfloor> = n div 60" if "60 \<le> n" "n < 3600"
    using floor_to_double_quotient [of 60 n] that by simp
  have h: "to_double (of_int n / 3600) = 1 \<longleftrightarrow> n = 3600" if "3600 \<le> n" "n < 86400"
    using to_double_quotient_eq_1 [of 3600 n] that by simp
  have d1: "to_double (of_int n / 86400) = 1 \<longleftrightarrow> n = 86400" if "86400 \<le> n"
    using to_double_quotient_eq_1 [of 86400 n] that assms(2) by simp
  have d: "\<lfloor>to_double (of_int n / 86400)\<rfloor> = n div 86400" if "86400 \<le> n"
    using floor_to_double_quotient [of 86400 n] that assms(2) by simp
  show ?thesis
  proof (cases "n < 60")
    case True
    then show ?thesis
      unfolding human_readable_time_def s by (simp add: Let_def)
  next
    case n60: False
    show ?thesis
    proof (cases "n < 3600")
      case True
      then show ?thesis
        unfolding human_readable_time_def s using n60 m by (simp add: Let_def)
    next
      case n3600: False
      show ?thesis
      proof (cases "n < 86400")
        case True
        then show ?thesis
          unfolding human_readable_time_def s using n60 n3600 h by (simp add: Let_def)
      next
        case n86400: False
        show ?thesis
        proof (cases "n < 604800")
          case True
          then show ?thesis
            unfolding human_readable_time_def s using n60 n3600 n86400 d1
            by (simp add: Let_def)
        next
          case False
          then show ?thesis
            unfolding human_readable_time_def s using n60 n3600 n86400 d
            by (simp add: Let_def)
        qed
      qed
    qed
  qed
qed

lemma time_45: "human_readable_time (45 * 1000000) = ''45 seconds''"
  by code_simp

lemma time_90: "human_readable_time (90 * 1000000) = ''1 minute''"
  by code_simp

lemma time_7200: "human_readable_time (7200 * 1000000) = ''2.0 hours''"
  by code_simp

lemma time_90000: "human_readable_time (90000 * 1000000) = ''1.0 days''"
  by code_simp

text \<open>
  C6, as stated, fails at 90000 seconds: the unit is followed by \<open>s\<close> because the quotient
  \<open>90000 / 86400\<close> is not 1, although it prints as \<open>1.0\<close>.
\<close>

theorem human_readable_time_one_day_counterexample:
  "human_readable_time (90000 * 1000000) = ''1.0 days'' \<and>
   human_readable_time (90000 * 1000000) \<noteq> ''1.0 day''"
  by code_simp

text \<open>
  C6, amended. \<open>human_readable_time\<close> maps a difference of 45 seconds to \<open>45 seconds\<close>, of 90
  seconds to \<open>1 minute\<close>, of 7200 seconds to \<open>2.0 hours\<close> and of 90000 seconds to
  \<open>1.0 days\<close>. For every difference of a whole number \<open>n\<close> of seconds (up to the
  \<open>10\<^sup>9\<close> days a \<^verbatim>\<open>timedelta\<close> can hold) the unit word is in the plural exactly when the
  number it is tested against is not 1: \<open>n\<close> itself for seconds, the whole number of
  minutes for minutes, the exact quotient for hours and days (so the singular appears only
  at exactly 3600 and 86400 seconds, while the number printed is the quotient to one
  decimal place), and the whole numbers printed for weeks, months and years.
\<close>

theorem human_readable_time_spec:
  "human_readable_time (45 * 1000000) = ''45 seconds'' \<and>
   human_readable_time (90 * 1000000) = ''1 minute'' \<and>
   human_readable_time (7200 * 1000000) = ''2.0 hours'' \<and>
   human_readable_time (90000 * 1000000) = ''1.0 days'' \<and>
   (\<forall>n. 0 \<le> n \<and> n < 86400 * 1000000000 \<longrightarrow>
      human_readable_time (n * 1000000) =
        (if n < 60 then str_int n @ '' second'' @ plural (n \<noteq> 1)
         else if n < 3600 then str_int (n div 60) @ '' minute'' @ plural (n div 60 \<noteq> 1)
         else if n < 86400
         then format_1f (to_double (of_int n / 3600)) @ '' hour'' @ plural (n \<noteq> 3600)
         else if n < 604800
         then format_1f (to_double (of_int n / 86400)) @ '' day'' @ plural (n \<noteq> 86400)
         else
           (let days = n div 86400 in
            if days < 30
            then str_int (days div 7) @ '' week'' @ plural (days div 7 \<noteq> 1) @ '', '' @
                 str_int (days mod 7) @ '' day'' @ plural (days mod 7 \<noteq> 1)
            else if days < 365
            then str_int (days div 30) @ '' month'' @ plural (days div 30 \<noteq> 1) @ '', '' @
                 str_int (days mod 30 div 7) @ '' week'' @ plural (days mod 30 div 7 \<noteq> 1)
            else str_int (days div 365) @ '' year'' @ plural (days div 365 \<noteq> 1) @ '', '' @
                 str_int (days mod 365 div 30) @ '' month'' @
                 plural (days mod 365 div 30 \<noteq> 1))))"
  using time_45 time_90 time_7200 time_90000 human_readable_time_whole_seconds
  by blast

theorem human_readable_time_spec_witness:
  "(0 :: int) \<le> 86400 \<and> (86400 :: int) < 86400 * 1000000000 \<and>
   human_readable_time (86400 * 1000000) = format_1f (to_double 1) @ '' day''"
proof -
  have a: "(0 :: int) \<le> 86400 \<and> (86400 :: int) < 86400 * 1000000000" by simp
  from human_readable_time_spec have
    "\<forall>n. 0 \<le> n \<and> n < 86400 * 1000000000 \<longrightarrow>
      human_readable_time (n * 1000000) =
        (if n < 60 then str_int n @ '' second'' @ plural (n \<noteq> 1)
         else if n < 3600 then str_int (n div 60) @ '' minute'' @ plural (n div 60 \<noteq> 1)
         else if n < 86400
         then format_1f (to_double (of_int n / 3600)) @ '' hour'' @ plural (n \<noteq> 3600)
         else if n < 604800
         then format_1f (to_double (of_int n / 86400)) @ '' day'' @ plural (n \<noteq> 86400)
         else
           (let days = n div 86400 in
            if days < 30
            then str_int (days div 7) @ '' week'' @ plural (days div 7 \<noteq> 1) @ '', '' @
                 str_int (days mod 7) @ '' day'' @ plural (days mod 7 \<noteq> 1)
            else if days < 365
            then str_int (days div 30) @ '' month'' @ plural (days div 30 \<noteq> 1) @ '', '' @
                 str_int (days mod 30 div 7) @ '' week'' @ plural (days mod 30 div 7 \<noteq> 1)
            else str_int (days div 365) @ '' year'' @ plural (days div 365 \<noteq> 1) @ '', '' @
                 str_int (days mod 365 div 30) @ '' month'' @
                 plural (days mod 365 div 30 \<noteq> 1)))"
    by (elim conjE)
  from this [rule_format, of 86400] a
  have "human_readable_time (86400 * 1000000) = format_1f (to_double 1) @ '' day''"
    by (simp add: plural_def)
  with a show ?thesis by blast
qed

section \<open>Properties of print\_report\<close>

text \<open>Change sets in which every directory has an empty inner dictionary: the summary loop
  creates nothing else when it starts from an empty change set.\<close>

lemma touch_Nil_buckets:
  assumes "\<forall>(d, b) \<in> set c. b = []"
  shows "\<forall>(d, b) \<in> set (touch dir_name c). b = []"
  using assms by (auto simp: touch_def)

lemma dict_get_Nil_buckets:
  assumes "\<forall>(d, b) \<in> set c. b = []"
  shows "dict_get c dir_name [] = []"
proof (cases "map_of c dir_name")
  case None
  then show ?thesis by (simp add: dict_get_def)
next
  case (Some b)
  then have "(dir_name, b) \<in> set c" by (rule map_of_SomeD)
  with assms have "b = []" by auto
  with Some show ?thesis by (simp add: dict_get_def)
qed

lemma changes_get_Nil_buckets:
  assumes "\<forall>(d, b) \<in> set c. b = []"
  shows "changes_get c dir_name key = []"
  using dict_get_Nil_buckets [OF assms] by (simp add: changes_get_def dict_get_def)

lemma summary_row_Nil_buckets:
  assumes "\<forall>(d, b) \<in> set c. b = []"
  shows "summary_row dir_name c = summary_row dir_name []"
  using changes_get_Nil_buckets [OF assms] by (simp add: summary_row_def changes_get_def dict_get_def)

lemma summary_rows_Nil_buckets:
  assumes "\<forall>(d, b) \<in> set c. b = []"
  shows "fst (summary_rows dirs c) = map (\<lambda>d. summary_row d []) dirs \<and>
         (\<forall>(d, b) \<in> set (snd (summary_rows dirs c)). b = []) \<and>
         (snd (summary_rows dirs c) = [] \<longleftrightarrow> c = [] \<and> dirs = [])"
  using assms
proof (induction dirs arbitrary: c)
  case Nil
  then show ?case by simp
next
  case (Cons d dirs)
  let ?c1 = "touch d c"
  have e: "\<forall>(d, b) \<in> set ?c1. b = []" using Cons.prems by (rule touch_Nil_buckets)
  have n: "?c1 \<noteq> []" by (auto simp: touch_def)
  from Cons.IH [OF e] n summary_row_Nil_buckets [OF e, of d]
  show ?case by (simp add: Let_def split_beta)
qed

lemma lines_for_Nil:
  assumes "\<forall>x \<in> set xs. f x = Inr []"
  shows "lines_for f xs = Inr []"
  using assms by (induction xs) (simp_all add: bind_def)

lemma total_size_Nil: "total_size m key [] = 0"
  by (simp add: total_size_def)

lemma all_dirs_sorted_Nil:
  "all_dirs_sorted source_map dest_map = [] \<longleftrightarrow> source_map = [] \<and> dest_map = []"
proof -
  have "set (all_dirs_sorted source_map dest_map) =
        get_dir_key ` (fst ` set source_map \<union> fst ` set dest_map)"
    by (auto simp: all_dirs_sorted_def keys_def)
  then have "set (all_dirs_sorted source_map dest_map) = {} \<longleftrightarrow> source_map = [] \<and> dest_map = []"
    by simp
  then show ?thesis by simp
qed

lemma print_report_no_changes:
  "print_report strftime [] source_map dest_map show_all show_fix source_path_for_fix
     source_display_name dest_display_name =
   Inr ([nl @ ''--- Summary of Differences ---'',
         summary_header source_display_name dest_display_name,
         replicate (length (summary_header source_display_name dest_display_name)) CHR ''-''] @
        map (\<lambda>d. summary_row d []) (all_dirs_sorted source_map dest_map) @
        [replicate (length (summary_header source_display_name dest_display_name)) CHR ''-'',
         total_row ''0B'' ''0B'',
         if source_map = [] \<and> dest_map = [] then nl @ ''No differences found.''
         else nl @ ''--- Details of Differences ---''])"
proof -
  let ?dirs = "all_dirs_sorted source_map dest_map"
  have e: "\<forall>(d, b) \<in> set ([] :: changes). b = []" by simp
  obtain rows c1 where r: "summary_rows ?dirs [] = (rows, c1)" by (cases "summary_rows ?dirs []")
  from summary_rows_Nil_buckets [OF e, of ?dirs] r
  have rows: "rows = map (\<lambda>d. summary_row d []) ?dirs"
    and c1: "\<forall>(d, b) \<in> set c1. b = []"
    and c1e: "c1 = [] \<longleftrightarrow> ?dirs = []"
    by simp_all
  have d: "lines_for
             (detail_dir strftime c1 source_map dest_map show_all show_fix source_path_for_fix
                source_display_name dest_display_name) (sort ?dirs) = Inr []"
    by (rule lines_for_Nil) (simp add: detail_dir_def dict_get_Nil_buckets [OF c1])
  have z: "human_readable_bytes (Some 0) = Inr ''0B''"
    by (simp add: human_readable_bytes_def)
  show ?thesis
    unfolding print_report_def Let_def total_size_Nil r
    by (simp add: z bind_def d rows c1e all_dirs_sorted_Nil)
qed

text \<open>
  C4. When the comparison yields an empty change set, the report is the summary table with
  a row of zeros for every directory key of either listing, and one more line. That line
  is the notice \<open>No differences found.\<close> only when both listings are empty; otherwise it
  is the heading of the detail section, because the summary loop reads
  \<^verbatim>\<open>changes[dir_name]\<close> and thereby creates each key, so that \<^verbatim>\<open>not changes\<close> is false.
\<close>

theorem empty_change_set_report:
  assumes "compare_listings iter source_map dest_map = Inr []"
  shows "compare_and_report iter strftime source_map dest_map show_all show_fix source_path
           source_display_name =
         Inr ([nl @ ''--- Summary of Differences ---'',
               summary_header source_display_name DEST_NAME,
               replicate (length (summary_header source_display_name DEST_NAME)) CHR ''-''] @
              map (\<lambda>d. summary_row d []) (all_dirs_sorted source_map dest_map) @
              [replicate (length (summary_header source_display_name DEST_NAME)) CHR ''-'',
               total_row ''0B'' ''0B'',
               if source_map = [] \<and> dest_map = [] then nl @ ''No differences found.''
               else nl @ ''--- Details of Differences ---''])"
  using assms by (simp add: compare_and_report_def bind_def print_report_no_changes)

text \<open>Two identical listings of one file: the report ends with the heading of the detail
  section and has no notice.\<close>

theorem empty_change_set_report_witness:
  "compare_listings rev one_file one_file = Inr [] \<and>
   compare_and_report rev str_int one_file one_file False False ''/mnt/backup'' SOURCE_NAME =
   Inr [nl @ ''--- Summary of Differences ---'',
      ''Directory                 | nas only     | coldstorage only | Size Change  | nas Newer    | coldstorage Newer'',
      ''-------------------------------------------------------------------------------------------------------------'',
      ''foo                       | 0            | 0            | 0            | 0            | 0           '',
      ''-------------------------------------------------------------------------------------------------------------'',
      ''TOTAL SIZE                | 0B           | 0B           |              |              |             '',
      nl @ ''--- Details of Differences ---'']"
proof -
  have h: "compare_listings rev one_file one_file = Inr []"
    by code_simp
  have v: "[nl @ ''--- Summary of Differences ---'',
            summary_header SOURCE_NAME DEST_NAME,
            replicate (length (summary_header SOURCE_NAME DEST_NAME)) CHR ''-''] @
           map (\<lambda>d. summary_row d []) (all_dirs_sorted one_file one_file) @
           [replicate (length (summary_header SOURCE_NAME DEST_NAME)) CHR ''-'',
            total_row ''0B'' ''0B'',
            if one_file = [] \<and> one_file = [] then nl @ ''No differences found.''
            else nl @ ''--- Details of Differences ---''] =
     [nl @ ''--- Summary of Differences ---'',
      ''Directory                 | nas only     | coldstorage only | Size Change  | nas Newer    | coldstorage Newer'',
      ''-------------------------------------------------------------------------------------------------------------'',
      ''foo                       | 0            | 0            | 0            | 0            | 0           '',
      ''-------------------------------------------------------------------------------------------------------------'',
      ''TOTAL SIZE                | 0B           | 0B           |              |              |             '',
      nl @ ''--- Details of Differences ---'']"
    by code_simp
  from empty_change_set_report [OF h, of str_int False False "''/mnt/backup''" SOURCE_NAME] h v
  show ?thesis by (simp only:)
qed

text \<open>
  C5 at a source with one file in each of two directories and an empty destination, with
  \<^verbatim>\<open>show_fix\<close> set. The block of fix commands, which covers every directory, is printed
  once for each directory that has divergences: here twice, so every command appears
  twice.
\<close>

theorem fix_commands_repeated:
  \<open>compare_and_report rev strftime two_dirs [] show_all True ''/mnt/backup'' SOURCE_NAME =
   Inr [nl @ ''--- Summary of Differences ---'',
      ''Directory                 | nas only     | coldstorage only | Size Change  | nas Newer    | coldstorage Newer'',
      ''-------------------------------------------------------------------------------------------------------------'',
      ''a                         | 0            | 1            | 0            | 0            | 0           '',
      ''b                         | 0            | 1            | 0            | 0            | 0           '',
      ''-------------------------------------------------------------------------------------------------------------'',
      ''TOTAL SIZE                | 0B           | 3.0B         |              |              |             '',
      nl @ ''--- Details of Differences ---'',
      nl @ ''Directory: a'' @ nl @ ''------------------------'',
      nl @ ''--- Fix Commands (to run on nas server) ---'',
      nl @ ''# Copy NEW files for directory: a'',
      ''mkdir -p "/mnt/user/a"'',
      ''scp "byron@coldstorage:/mnt/backup/a/x" "/mnt/user/a/x"'',
      nl @ ''# Copy NEW files for directory: b'',
      ''mkdir -p "/mnt/user/b"'',
      ''scp "byron@coldstorage:/mnt/backup/b/y" "/mnt/user/b/y"'',
      nl @ ''Directory: b'' @ nl @ ''------------------------'',
      nl @ ''--- Fix Commands (to run on nas server) ---'',
      nl @ ''# Copy NEW files for directory: a'',
      ''mkdir -p "/mnt/user/a"'',
      ''scp "byron@coldstorage:/mnt/backup/a/x" "/mnt/user/a/x"'',
      nl @ ''# Copy NEW files for directory: b'',
      ''mkdir -p "/mnt/user/b"'',
      ''scp "byron@coldstorage:/mnt/backup/b/y" "/mnt/user/b/y"'']\<close>
  by code_simp

end
